theory Spec2Isabelle
  imports Main "HOL-Library.Multiset" "HOL-Library.Sublist" "HOL-Library.AList"
begin

section \<open>The Slurm exporter: configuration, collectors and the metrics handler\<close>

text \<open>
  The development embeds three parts of the exporter:
  \<^item> \<^verbatim>\<open>internal/config/config.go\<close>: the configuration records, \<^verbatim>\<open>Validate\<close> and
    \<^verbatim>\<open>GetEnabledEndpoints\<close>;
  \<^item> package \<^verbatim>\<open>collector\<close>, which the sources hold in two variants: one that relabels the
    raw exposition text line by line, and one that works on parsed
    \<^verbatim>\<open>dto.MetricFamily\<close> values;
  \<^item> \<^verbatim>\<open>internal/server/http.go\<close>: \<^verbatim>\<open>handleMetrics\<close>.

  Go strings are byte sequences, so a string is a list of 8-bit characters. Errors are
  values of one datatype; a function that returns \<^verbatim>\<open>(T, error)\<close> returns a sum with the
  error on the left.
\<close>

subsection \<open>Errors\<close>

datatype error =
    SlurmUrlRequired
  | SlurmTimeoutRequired
  | InvalidTimeoutFormat
  | ServerPortOutOfRange
  | BasicAuthIncomplete
  | SslIncomplete
  | NoEndpointConfigured
  | EndpointNameRequired nat
  | EndpointPathRequired nat
  | InvalidLoggingLevel
  | FailedToCreateRequest
  | FailedToFetchMetrics
  | UnexpectedStatusCode int
  | FailedToReadResponse
  | FailedToParseMetrics
  | FailedToEncodeFamily
  | FailedToWriteMetrics

subsection \<open>Configuration (config.go)\<close>

record SlurmConfig =
  URL :: string
  Timeout :: string

record BasicAuthConfig =
  auth_Enabled :: bool
  Username :: string
  Password :: string

record SSLConfig =
  ssl_Enabled :: bool
  CertFile :: string
  KeyFile :: string

record ServerConfig =
  Port :: int
  BasicAuth :: BasicAuthConfig
  SSL :: SSLConfig

record EndpointConfig =
  Name :: string
  Path :: string
  Enabled :: bool

record LoggingConfig =
  Level :: string
  Output :: string

text \<open>
  A Go map is the list of its entries, each key once; \<^verbatim>\<open>len(m)\<close> is the length of the list
  (a nil map and an empty map are both the empty list, and the code does not tell them
  apart), \<^verbatim>\<open>m[k] = v\<close> is \<open>AList.update k v m\<close> and a lookup is \<open>map_of m k\<close>. The order of
  the list is not an order of the map: a loop over a map takes its order from the runtime
  (see \<open>range_order\<close> below).
\<close>

type_synonym ('k, 'v) gomap = "('k \<times> 'v) list"

record Config =
  Slurm :: SlurmConfig
  Server :: ServerConfig
  Endpoints :: "EndpointConfig list"
  Labels :: "(string, string) gomap"
  Logging :: LoggingConfig

text \<open>
  The loop of \<^verbatim>\<open>Validate\<close> over the endpoints returns at the first endpoint with an empty
  name or path; \<open>i\<close> is the loop index that the error message carries.
\<close>

fun validate_endpoints :: "nat \<Rightarrow> EndpointConfig list \<Rightarrow> error option" where
  "validate_endpoints i [] = None"
| "validate_endpoints i (e # es) =
     (if Name e = [] then Some (EndpointNameRequired i)
      else if Path e = [] then Some (EndpointPathRequired i)
      else validate_endpoints (Suc i) es)"

definition validLevels :: "string list" where
  "validLevels = [''debug'', ''info'', ''warn'', ''error'']"

text \<open>
  \<^verbatim>\<open>Validate\<close> returns an error or \<^verbatim>\<open>nil\<close>; on the way it fills in the defaults of the
  logging section in place. The model returns the error, or the configuration as the call
  leaves it. No field is written before an error return: the level is only set when it is
  empty, and \<^verbatim>\<open>info\<close> is a valid level.

  \<^verbatim>\<open>time.ParseDuration\<close> belongs to the Go standard library; it is the parameter
  \<open>ParseDuration\<close>, of which only success or failure is used.
\<close>

definition Validate :: "(string \<Rightarrow> error + int) \<Rightarrow> Config \<Rightarrow> error + Config" where
  "Validate ParseDuration c =
     (if URL (Slurm c) = [] then Inl SlurmUrlRequired
      else if Timeout (Slurm c) = [] then Inl SlurmTimeoutRequired
      else if isl (ParseDuration (Timeout (Slurm c))) then Inl InvalidTimeoutFormat
      else if Port (Server c) \<le> 0 \<or> Port (Server c) > 65535 then Inl ServerPortOutOfRange
      else if auth_Enabled (BasicAuth (Server c)) \<and>
              (Username (BasicAuth (Server c)) = [] \<or> Password (BasicAuth (Server c)) = [])
        then Inl BasicAuthIncomplete
      else if ssl_Enabled (SSL (Server c)) \<and>
              (CertFile (SSL (Server c)) = [] \<or> KeyFile (SSL (Server c)) = [])
        then Inl SslIncomplete
      else if length (Endpoints c) = 0 then Inl NoEndpointConfigured
      else (case validate_endpoints 0 (Endpoints c) of
              Some e \<Rightarrow> Inl e
            | None \<Rightarrow>
               (let c1 = (if Level (Logging c) = []
                          then c\<lparr>Logging := (Logging c)\<lparr>Level := ''info''\<rparr>\<rparr> else c)
                in if Level (Logging c1) \<in> set validLevels
                   then Inr (if Output (Logging c1) = []
                             then c1\<lparr>Logging := (Logging c1)\<lparr>Output := ''stdout''\<rparr>\<rparr> else c1)
                   else Inl InvalidLoggingLevel)))"

definition GetEnabledEndpoints :: "Config \<Rightarrow> EndpointConfig list" where
  "GetEnabledEndpoints c = filter Enabled (Endpoints c)"

subsection \<open>What the Go runtime contributes\<close>

text \<open>
  A \<^verbatim>\<open>for ... range\<close> loop over a Go map visits every entry once, in an order that the
  language leaves unspecified and that the runtime varies from one loop to the next. The
  order of each such loop is an argument of the model: the entries as the loop visits
  them, and \<open>range_order m it\<close> says that \<open>it\<close> is an order the runtime may choose for \<open>m\<close>.
\<close>

definition range_order :: "('k, 'v) gomap \<Rightarrow> ('k \<times> 'v) list \<Rightarrow> bool" where
  "range_order m it \<longleftrightarrow> mset it = mset m"

text \<open>
  Each loop over a map gets the runtime's choice as a function \<open>\<rho>\<close> from the map to the
  order of its entries; a choice the runtime can make satisfies
  \<open>range_order m (\<rho> m)\<close>. Two loops may be given different choices.
\<close>

type_synonym ('k, 'v) ranging = "('k, 'v) gomap \<Rightarrow> ('k \<times> 'v) list"

text \<open>
  A slice expression \<^verbatim>\<open>s[lo:hi]\<close> with \<^verbatim>\<open>lo > hi\<close> is a run-time panic. A call either
  panics, or returns an error, or returns a value.
\<close>

datatype panic = SliceBoundsOutOfRange nat nat

datatype 'r outcome = Panic panic | Failure error | Success 'r

subsection \<open>Strings: white space, fields, lines\<close>

text \<open>
  \<^verbatim>\<open>strings.Fields\<close> and \<^verbatim>\<open>strings.TrimSpace\<close> work on the code points of a UTF-8 string
  and use \<^verbatim>\<open>unicode.IsSpace\<close>. These are the encodings of the white-space code points
  (U+0009 to U+000D, U+0020, U+0085, U+00A0, U+1680, U+2000 to U+200A, U+2028, U+2029,
  U+202F, U+205F, U+3000). None of their first bytes is a continuation byte, so wherever
  one of these byte sequences stands in a string, the decoder reads it as one code point.
\<close>

definition unicode_spaces :: "string list" where
  "unicode_spaces =
     [[CHR 0x09], [CHR 0x0A], [CHR 0x0B], [CHR 0x0C], [CHR 0x0D], [CHR 0x20],
      [CHR 0xC2, CHR 0x85], [CHR 0xC2, CHR 0xA0],
      [CHR 0xE1, CHR 0x9A, CHR 0x80],
      [CHR 0xE2, CHR 0x80, CHR 0x80], [CHR 0xE2, CHR 0x80, CHR 0x81],
      [CHR 0xE2, CHR 0x80, CHR 0x82], [CHR 0xE2, CHR 0x80, CHR 0x83],
      [CHR 0xE2, CHR 0x80, CHR 0x84], [CHR 0xE2, CHR 0x80, CHR 0x85],
      [CHR 0xE2, CHR 0x80, CHR 0x86], [CHR 0xE2, CHR 0x80, CHR 0x87],
      [CHR 0xE2, CHR 0x80, CHR 0x88], [CHR 0xE2, CHR 0x80, CHR 0x89],
      [CHR 0xE2, CHR 0x80, CHR 0x8A], [CHR 0xE2, CHR 0x80, CHR 0xA8],
      [CHR 0xE2, CHR 0x80, CHR 0xA9], [CHR 0xE2, CHR 0x80, CHR 0xAF],
      [CHR 0xE2, CHR 0x81, CHR 0x9F],
      [CHR 0xE3, CHR 0x80, CHR 0x80]]"

text \<open>The width in bytes of the white-space code point a string starts with; 0 if none.\<close>

definition space_width :: "string \<Rightarrow> nat" where
  "space_width s = (case find (\<lambda>p. prefix p s) unicode_spaces of None \<Rightarrow> 0 | Some p \<Rightarrow> length p)"

text \<open>
  \<^verbatim>\<open>strings.Fields\<close>: the maximal runs of bytes between white space. \<open>skip\<close> counts the
  bytes still to pass of the white-space code point being read, \<open>cur\<close> is the field read so
  far.
\<close>

fun Fields_from :: "nat \<Rightarrow> string \<Rightarrow> string \<Rightarrow> string list" where
  "Fields_from skip cur [] = (if cur = [] then [] else [cur])"
| "Fields_from (Suc k) cur (c # cs) = Fields_from k cur cs"
| "Fields_from 0 cur (c # cs) =
     (if space_width (c # cs) = 0 then Fields_from 0 (cur @ [c]) cs
      else (if cur = [] then [] else [cur]) @ Fields_from (space_width (c # cs) - 1) [] cs)"

definition Fields :: "string \<Rightarrow> string list" where
  "Fields s = Fields_from 0 [] s"

text \<open>The test \<^verbatim>\<open>strings.TrimSpace(line) == ""\<close>: the line is white space throughout.\<close>

fun blank_from :: "nat \<Rightarrow> string \<Rightarrow> bool" where
  "blank_from skip [] = True"
| "blank_from (Suc k) (c # cs) = blank_from k cs"
| "blank_from 0 (c # cs) =
     (if space_width (c # cs) = 0 then False else blank_from (space_width (c # cs) - 1) cs)"

definition TrimSpace_is_empty :: "string \<Rightarrow> bool" where
  "TrimSpace_is_empty s = blank_from 0 s"

definition HasPrefix :: "string \<Rightarrow> string \<Rightarrow> bool" where
  "HasPrefix s p = prefix p s"

text \<open>\<^verbatim>\<open>strings.Join\<close> with a separator.\<close>

fun Join :: "string list \<Rightarrow> string \<Rightarrow> string" where
  "Join [] sep = []"
| "Join [x] sep = x"
| "Join (x # y # ys) sep = x @ sep @ Join (y # ys) sep"

text \<open>\<^verbatim>\<open>strings.Index(s, "{")\<close> for a byte that occurs in \<open>s\<close>: the index of its first occurrence.\<close>

definition Index :: "string \<Rightarrow> char \<Rightarrow> nat" where
  "Index s c = length (takeWhile (\<lambda>x. x \<noteq> c) s)"

text \<open>
  \<^verbatim>\<open>bufio.Scanner\<close> with the default split function \<^verbatim>\<open>ScanLines\<close> and the default buffer.
  The text is cut at every newline; a last piece without a newline is a line if it is not
  empty; one trailing carriage return is dropped from each line. A line of
  \<^verbatim>\<open>bufio.MaxScanTokenSize\<close> bytes or more does not fit the buffer: \<^verbatim>\<open>Scan\<close> then returns
  false, and the loop ends as at the end of the text (the collector does not look at
  \<^verbatim>\<open>scanner.Err()\<close>).
\<close>

definition MaxScanTokenSize :: nat where
  "MaxScanTokenSize = 65536"

fun split_lines :: "string \<Rightarrow> string \<Rightarrow> string list" where
  "split_lines cur [] = (if cur = [] then [] else [cur])"
| "split_lines cur (c # cs) =
     (if c = CHR 0x0A then cur # split_lines [] cs else split_lines (cur @ [c]) cs)"

definition dropCR :: "string \<Rightarrow> string" where
  "dropCR s = (if s \<noteq> [] \<and> last s = CHR 0x0D then butlast s else s)"

definition scan_lines :: "string \<Rightarrow> string list" where
  "scan_lines text =
     map dropCR (takeWhile (\<lambda>l. length l < MaxScanTokenSize) (split_lines [] text))"

subsection \<open>The collector on raw text\<close>

text \<open>
  \<^verbatim>\<open>addCustomLabels(metricsText string) string\<close>. The first loop builds the text of the extra
  labels, \<^verbatim>\<open>key="value"\<close> joined by commas, over the entries \<open>it\<close> of
  \<^verbatim>\<open>c.config.Labels\<close> in the order in which the runtime ranges over them; the state of the
  loop is the builder and the flag \<^verbatim>\<open>first\<close>. Keys and values are written as they are,
  without escaping.
\<close>

fun labelsBuilder :: "(string \<times> string) list \<Rightarrow> string \<times> bool \<Rightarrow> string \<times> bool" where
  "labelsBuilder [] st = st"
| "labelsBuilder ((key, value) # it) (b, first) =
     labelsBuilder it
       (b @ (if first then [] else '','') @ key @ [CHR 0x3D, CHR 0x22] @ value @ [CHR 0x22],
        False)"

definition labelsStr :: "(string \<times> string) list \<Rightarrow> string" where
  "labelsStr it = fst (labelsBuilder it ([], True))"

text \<open>
  The body of the second loop, for one line: what it appends to the result. Comment lines,
  blank lines and lines with fewer than two fields are copied; \<open>ls\<close> is the text of the
  extra labels. Otherwise the first field
  is the metric with its labels, and the other fields are joined again by single blanks.
  If the first field contains an opening brace, the bytes between that brace and the last
  byte of the field are taken for the existing labels by the slice expression
  \<^verbatim>\<open>metricPart[idx+1 : len(metricPart)-1]\<close>, which panics when the brace is the last byte.
\<close>

definition relabel_line :: "string \<Rightarrow> string \<Rightarrow> panic + string" where
  "relabel_line ls line =
     (if HasPrefix line ''#'' \<or> TrimSpace_is_empty line then Inr (line @ [CHR 0x0A])
      else
        let parts = Fields line in
        if length parts < 2 then Inr (line @ [CHR 0x0A])
        else
          let metricPart = hd parts;
              rest = Join (tl parts) '' ''
          in
          if CHR 0x7B \<in> set metricPart then
            let idx = Index metricPart (CHR 0x7B) in
            if idx + 1 > length metricPart - 1
            then Inl (SliceBoundsOutOfRange (idx + 1) (length metricPart - 1))
            else
              let name = take idx metricPart;
                  existingLabels = take (length metricPart - 1 - (idx + 1)) (drop (idx + 1) metricPart)
              in Inr (name @ [CHR 0x7B] @ existingLabels @ '','' @ ls @ [CHR 0x7D] @ '' ''
                      @ rest @ [CHR 0x0A])
          else Inr (metricPart @ [CHR 0x7B] @ ls @ [CHR 0x7D] @ '' '' @ rest @ [CHR 0x0A]))"

fun relabel_lines :: "string \<Rightarrow> string list \<Rightarrow> string \<Rightarrow> panic + string" where
  "relabel_lines ls [] result = Inr result"
| "relabel_lines ls (line # lines) result =
     (case relabel_line ls line of
        Inl p \<Rightarrow> Inl p
      | Inr out \<Rightarrow> relabel_lines ls lines (result @ out))"

definition addCustomLabels_text ::
  "(string, string) gomap \<Rightarrow> (string, string) ranging \<Rightarrow> string \<Rightarrow> panic + string" where
  "addCustomLabels_text labels \<rho> metricsText =
     (if length labels = 0 then Inr metricsText
      else relabel_lines (labelsStr (\<rho> labels)) (scan_lines metricsText) [])"

text \<open>
  What the HTTP client gives back for one request: the request could not be built, the
  round trip failed, or a response came with a status code and a body. The body is what
  reading it yields.
\<close>

datatype 'b exchange = RequestNotCreated | RequestFailed | Response int 'b

text \<open>
  \<^verbatim>\<open>collectEndpoint\<close> of the text collector. \<open>client\<close> answers the request for a URL;
  the body is \<open>None\<close> when \<^verbatim>\<open>io.Copy\<close> fails and the whole text otherwise; \<open>\<rho>\<close> is the
  order of the loop over the labels in this call.
\<close>

definition collectEndpoint_text ::
  "Config \<Rightarrow> (string, string) ranging \<Rightarrow> (string \<Rightarrow> string option exchange) \<Rightarrow> EndpointConfig
     \<Rightarrow> string outcome" where
  "collectEndpoint_text c \<rho> client endpoint =
     (case client (URL (Slurm c) @ Path endpoint) of
        RequestNotCreated \<Rightarrow> Failure FailedToCreateRequest
      | RequestFailed \<Rightarrow> Failure FailedToFetchMetrics
      | Response status body \<Rightarrow>
          if status \<noteq> 200 then Failure (UnexpectedStatusCode status)
          else (case body of
                  None \<Rightarrow> Failure FailedToReadResponse
                | Some text \<Rightarrow>
                    (case addCustomLabels_text (Labels c) \<rho> text of
                       Inl p \<Rightarrow> Panic p
                     | Inr metricsText \<Rightarrow> Success metricsText)))"

text \<open>
  The writer that \<^verbatim>\<open>WriteMetrics\<close> and the handler write to is the \<^verbatim>\<open>http.ResponseWriter\<close>
  of the request: the status code once it is fixed, and the body written so far. The
  first \<^verbatim>\<open>WriteHeader\<close> fixes the status and later ones are ignored; a \<^verbatim>\<open>Write\<close> before any
  \<^verbatim>\<open>WriteHeader\<close> fixes it at 200; a handler that returns without either is answered with
  200. A write does not fail (it fails only when the client is gone).
\<close>

record ResponseWriter =
  status_code :: "int option"
  written :: string

definition WriteHeader :: "int \<Rightarrow> ResponseWriter \<Rightarrow> ResponseWriter" where
  "WriteHeader code w = (case status_code w of None \<Rightarrow> w\<lparr>status_code := Some code\<rparr> | Some s \<Rightarrow> w)"

definition Write :: "string \<Rightarrow> ResponseWriter \<Rightarrow> ResponseWriter" where
  "Write b w = (WriteHeader 200 w)\<lparr>written := written w @ b\<rparr>"

definition http_Error :: "string \<Rightarrow> int \<Rightarrow> ResponseWriter \<Rightarrow> ResponseWriter" where
  "http_Error msg code w = Write (msg @ [CHR 0x0A]) (WriteHeader code w)"

definition sent_status :: "ResponseWriter \<Rightarrow> int" where
  "sent_status w = (case status_code w of None \<Rightarrow> 200 | Some s \<Rightarrow> s)"

text \<open>
  \<^verbatim>\<open>WriteMetrics\<close> of the text collector ranges over the map of results, in the order
  \<open>\<rho>\<close> of that loop, and writes each text to \<open>w\<close>. Since a write does not fail, the error
  returned is always \<^verbatim>\<open>nil\<close>.
\<close>

fun write_texts :: "(string \<times> string) list \<Rightarrow> ResponseWriter \<Rightarrow> ResponseWriter \<times> error option" where
  "write_texts [] w = (w, None)"
| "write_texts ((name, metricsText) # it) w = write_texts it (Write metricsText w)"

definition WriteMetrics_text ::
  "(string, string) ranging \<Rightarrow> (string, string) gomap \<Rightarrow> ResponseWriter \<Rightarrow> ResponseWriter \<times> error option" where
  "WriteMetrics_text \<rho> metricsMap w = write_texts (\<rho> metricsMap) w"

subsection \<open>The collector on parsed families\<close>

text \<open>
  The types of \<^verbatim>\<open>client_model\<close> as far as the collector uses them. A \<^verbatim>\<open>dto.Metric\<close> is
  reached through a pointer and written in place, so metrics live in a store from addresses
  to metrics, and a family holds the addresses of its metrics. The fields of a metric
  other than its labels (the value, the timestamp) are the extension of the record.
  Families and label pairs are never written through their pointers by the collector and
  are modelled by value. Every address holds a metric: the parser returns no nil pointer.
\<close>

record LabelPair =
  label_Name :: string
  label_Value :: string

record Metric =
  Label :: "LabelPair list"

datatype MetricType = COUNTER | GAUGE | SUMMARY | UNTYPED | HISTOGRAM | GAUGE_HISTOGRAM

record MetricFamily =
  family_Name :: string
  family_Help :: string
  family_Type :: MetricType
  family_Metric :: "nat list"

type_synonym 'a heap = "nat \<Rightarrow> 'a Metric_scheme"

text \<open>
  \<^verbatim>\<open>addCustomLabels(families []*dto.MetricFamily) []*dto.MetricFamily\<close>. The first loop
  makes one label pair per entry of \<^verbatim>\<open>c.config.Labels\<close>, in the order of the loop over
  the map. The second appends these pairs to \<^verbatim>\<open>metric.Label\<close> of every metric of every
  family, through the pointer, and the slice of families that came in is returned. The
  label slices of different metrics do not share a backing array (the parser builds each
  on its own), so an append to one is not seen through another.
\<close>

definition customLabels :: "(string \<times> string) list \<Rightarrow> LabelPair list" where
  "customLabels it = map (\<lambda>(key, value). \<lparr>label_Name = key, label_Value = value\<rparr>) it"

fun label_metrics :: "LabelPair list \<Rightarrow> nat list \<Rightarrow> 'a heap \<Rightarrow> 'a heap" where
  "label_metrics cl [] h = h"
| "label_metrics cl (metric # ms) h =
     label_metrics cl ms (h(metric := (h metric)\<lparr>Label := Label (h metric) @ cl\<rparr>))"

fun label_families :: "LabelPair list \<Rightarrow> MetricFamily list \<Rightarrow> 'a heap \<Rightarrow> 'a heap" where
  "label_families cl [] h = h"
| "label_families cl (family # fs) h = label_families cl fs (label_metrics cl (family_Metric family) h)"

definition addCustomLabels ::
  "(string, string) gomap \<Rightarrow> (string, string) ranging \<Rightarrow> MetricFamily list \<Rightarrow> 'a heap
     \<Rightarrow> MetricFamily list \<times> 'a heap" where
  "addCustomLabels labels \<rho> families h =
     (if length labels = 0 then (families, h)
      else (families, label_families (customLabels (\<rho> labels)) families h))"

text \<open>
  \<^verbatim>\<open>parseMetrics\<close> hands the reader to \<^verbatim>\<open>expfmt.TextParser.TextToMetricFamilies\<close>, a
  function of the Prometheus library and a parameter here: from the text it returns an
  error, or a Go map from family names to families together with the metrics it has
  allocated. A reader that fails makes the parser fail. The families of the map are then
  put in a slice, in the order \<open>\<rho>\<close> of the loop over the map.
\<close>

type_synonym 'a text_parser = "string \<Rightarrow> error + ((string, MetricFamily) gomap \<times> 'a heap)"

definition parseMetrics ::
  "'a text_parser \<Rightarrow> (string, MetricFamily) ranging \<Rightarrow> string option
     \<Rightarrow> error + (MetricFamily list \<times> 'a heap)" where
  "parseMetrics TextToMetricFamilies \<rho> reader =
     (case reader of
        None \<Rightarrow> Inl FailedToParseMetrics
      | Some text \<Rightarrow>
          (case TextToMetricFamilies text of
             Inl e \<Rightarrow> Inl FailedToParseMetrics
           | Inr (metricFamilies, h) \<Rightarrow> Inr (map snd (\<rho> metricFamilies), h)))"

text \<open>
  \<^verbatim>\<open>collectEndpoint\<close> of this collector; \<open>\<rho>f\<close> and \<open>\<rho>l\<close> are the orders of the loops over the
  parsed families and over the labels. Nothing in it can panic.
\<close>

definition collectEndpoint ::
  "Config \<Rightarrow> 'a text_parser \<Rightarrow> (string, MetricFamily) ranging \<Rightarrow> (string, string) ranging
     \<Rightarrow> (string \<Rightarrow> string option exchange) \<Rightarrow> EndpointConfig
     \<Rightarrow> (MetricFamily list \<times> 'a heap) outcome" where
  "collectEndpoint c TextToMetricFamilies \<rho>f \<rho>l client endpoint =
     (case client (URL (Slurm c) @ Path endpoint) of
        RequestNotCreated \<Rightarrow> Failure FailedToCreateRequest
      | RequestFailed \<Rightarrow> Failure FailedToFetchMetrics
      | Response status reader \<Rightarrow>
          if status \<noteq> 200 then Failure (UnexpectedStatusCode status)
          else (case parseMetrics TextToMetricFamilies \<rho>f reader of
                  Inl e \<Rightarrow> Failure FailedToParseMetrics
                | Inr (metricFamilies, h) \<Rightarrow>
                    Success (addCustomLabels (Labels c) \<rho>l metricFamilies h)))"

text \<open>
  \<^verbatim>\<open>WriteMetrics\<close> of this collector encodes every family of every entry of the map, in
  the order \<open>\<rho>\<close> of the loop over the map, and stops at the first family the encoder
  refuses. The encoder of the Prometheus library is the parameter \<open>Encode\<close>: the text of a
  family, read from the store, or an error.
\<close>

type_synonym 'a encoder = "'a heap \<Rightarrow> MetricFamily \<Rightarrow> error + string"

fun encode_families ::
  "'a encoder \<Rightarrow> 'a heap \<Rightarrow> MetricFamily list \<Rightarrow> ResponseWriter \<Rightarrow> ResponseWriter \<times> error option" where
  "encode_families Encode h [] w = (w, None)"
| "encode_families Encode h (family # fs) w =
     (case Encode h family of
        Inl e \<Rightarrow> (w, Some FailedToEncodeFamily)
      | Inr text \<Rightarrow> encode_families Encode h fs (Write text w))"

fun write_families ::
  "'a encoder \<Rightarrow> (string \<times> MetricFamily list \<times> 'a heap) list \<Rightarrow> ResponseWriter
     \<Rightarrow> ResponseWriter \<times> error option" where
  "write_families Encode [] w = (w, None)"
| "write_families Encode ((name, metricFamilies, h) # it) w =
     (case encode_families Encode h metricFamilies w of
        (w', Some e) \<Rightarrow> (w', Some e)
      | (w', None) \<Rightarrow> write_families Encode it w')"

definition WriteMetrics ::
  "'a encoder \<Rightarrow> (string, MetricFamily list \<times> 'a heap) ranging
     \<Rightarrow> (string, MetricFamily list \<times> 'a heap) gomap \<Rightarrow> ResponseWriter
     \<Rightarrow> ResponseWriter \<times> error option" where
  "WriteMetrics Encode \<rho> families w = write_families Encode (\<rho> families) w"

subsection \<open>The registry of the exporter's own metrics\<close>

text \<open>
  The vectors of \<^verbatim>\<open>metrics.Registry\<close> that the collector writes, each a map from the value
  of the \<^verbatim>\<open>endpoint\<close> label to its child: the number of durations observed, the success
  gauge (only ever set to 0 or 1), and the error counter. \<^verbatim>\<open>WithLabelValues\<close> creates a
  child that is not there yet.
\<close>

record Registry =
  ScrapeDuration :: "string \<rightharpoonup> nat"
  ScrapeSuccess :: "string \<rightharpoonup> int"
  ScrapeErrors :: "string \<rightharpoonup> nat"

definition NewTimer :: "string \<Rightarrow> Registry \<Rightarrow> Registry" where
  "NewTimer name reg =
     (case ScrapeDuration reg name of
        None \<Rightarrow> reg\<lparr>ScrapeDuration := (ScrapeDuration reg)(name \<mapsto> 0)\<rparr>
      | Some n \<Rightarrow> reg)"

definition ObserveDuration :: "string \<Rightarrow> Registry \<Rightarrow> Registry" where
  "ObserveDuration name reg =
     reg\<lparr>ScrapeDuration := (ScrapeDuration reg)(name \<mapsto>
            (case ScrapeDuration reg name of None \<Rightarrow> 1 | Some n \<Rightarrow> n + 1))\<rparr>"

definition SetSuccess :: "string \<Rightarrow> int \<Rightarrow> Registry \<Rightarrow> Registry" where
  "SetSuccess name v reg = reg\<lparr>ScrapeSuccess := (ScrapeSuccess reg)(name \<mapsto> v)\<rparr>"

definition IncErrors :: "string \<Rightarrow> Registry \<Rightarrow> Registry" where
  "IncErrors name reg =
     reg\<lparr>ScrapeErrors := (ScrapeErrors reg)(name \<mapsto>
            (case ScrapeErrors reg name of None \<Rightarrow> 1 | Some n \<Rightarrow> n + 1))\<rparr>"

subsection \<open>CollectAll\<close>

text \<open>
  \<^verbatim>\<open>CollectAll\<close> reads the same in both collectors but for the type of what an endpoint
  yields, so it is one function of \<^verbatim>\<open>collectEndpoint\<close>, here \<open>collect\<close>; \<open>collect i\<close> is the call
  for the \<open>i\<close>-th enabled endpoint. The loop carries the map of results and the
  registry. A failed endpoint sets its gauge to 0, counts an error and is skipped; a
  collected one sets its gauge to 1 and is stored under its name. A panic ends the loop,
  and the call, at once. After the loop \<^verbatim>\<open>CollectAll\<close> returns the map and \<^verbatim>\<open>nil\<close>.
\<close>

fun CollectAll_loop ::
  "(nat \<Rightarrow> EndpointConfig \<Rightarrow> 'r outcome) \<Rightarrow> nat \<Rightarrow> EndpointConfig list \<Rightarrow> (string, 'r) gomap
     \<Rightarrow> Registry \<Rightarrow> (panic + (string, 'r) gomap) \<times> Registry" where
  "CollectAll_loop collect i [] results reg = (Inr results, reg)"
| "CollectAll_loop collect i (endpoint # rest) results reg =
     (case collect i endpoint of
        Panic p \<Rightarrow> (Inl p, NewTimer (Name endpoint) reg)
      | Failure err \<Rightarrow>
          CollectAll_loop collect (Suc i) rest results
            (IncErrors (Name endpoint)
              (SetSuccess (Name endpoint) 0
                (ObserveDuration (Name endpoint) (NewTimer (Name endpoint) reg))))
      | Success metrics \<Rightarrow>
          CollectAll_loop collect (Suc i) rest
            (AList.update (Name endpoint) metrics results)
            (SetSuccess (Name endpoint) 1
              (ObserveDuration (Name endpoint) (NewTimer (Name endpoint) reg))))"

definition CollectAll ::
  "(nat \<Rightarrow> EndpointConfig \<Rightarrow> 'r outcome) \<Rightarrow> Config \<Rightarrow> Registry
     \<Rightarrow> (panic + ((string, 'r) gomap \<times> error option)) \<times> Registry" where
  "CollectAll collect c reg =
     (case CollectAll_loop collect 0 (GetEnabledEndpoints c) [] reg of
        (Inl p, reg') \<Rightarrow> (Inl p, reg')
      | (Inr results, reg') \<Rightarrow> (Inr (results, None), reg'))"

subsection \<open>The metrics handler (http.go)\<close>

text \<open>
  \<^verbatim>\<open>handleMetrics\<close> calls \<^verbatim>\<open>CollectAll\<close> and \<^verbatim>\<open>WriteMetrics\<close> of the collector it was given,
  here \<open>collectAll\<close> and \<open>writeMetrics\<close>, and then lets the handler of the Prometheus
  library write the exporter's own metrics; \<open>ownMetrics\<close> is the text that handler writes
  for a registry. A panic of the collector leaves the handler before anything is written.
\<close>

definition handleMetrics ::
  "(Registry \<Rightarrow> (panic + ((string, 'r) gomap \<times> error option)) \<times> Registry)
     \<Rightarrow> ((string, 'r) gomap \<Rightarrow> ResponseWriter \<Rightarrow> ResponseWriter \<times> error option)
     \<Rightarrow> (Registry \<Rightarrow> string) \<Rightarrow> Registry \<Rightarrow> ResponseWriter
     \<Rightarrow> (panic + ResponseWriter) \<times> Registry" where
  "handleMetrics collectAll writeMetrics ownMetrics reg w =
     (case collectAll reg of
        (Inl p, reg') \<Rightarrow> (Inl p, reg')
      | (Inr (metricsMap, Some err), reg') \<Rightarrow>
          (Inr (http_Error ''Failed to collect metrics'' 500 w), reg')
      | (Inr (metricsMap, None), reg') \<Rightarrow>
          (case writeMetrics metricsMap w of
             (w', Some err) \<Rightarrow> (Inr w', reg')
           | (w', None) \<Rightarrow> (Inr (Write (ownMetrics reg') w'), reg')))"

subsection \<open>A notion for the statements\<close>

text \<open>
  The entries \<^verbatim>\<open>(name, result)\<close> of the endpoints of a list that were collected, in the
  order of the list; \<open>collect j\<close> is the call for the first endpoint of the list.
\<close>

fun collected ::
  "(nat \<Rightarrow> EndpointConfig \<Rightarrow> 'r outcome) \<Rightarrow> nat \<Rightarrow> EndpointConfig list \<Rightarrow> (string \<times> 'r) list" where
  "collected collect j [] = []"
| "collected collect j (e # es) =
     (case collect j e of Success r \<Rightarrow> [(Name e, r)] | Failure err \<Rightarrow> [] | Panic p \<Rightarrow> [])
     @ collected collect (Suc j) es"

subsection \<open>Concrete inputs\<close>

text \<open>
  A stand-in for \<^verbatim>\<open>time.ParseDuration\<close> in concrete examples: it answers as Go does on the
  one duration string the examples use (ten seconds, in nanoseconds), and rejects the rest.
\<close>

definition parse_10s :: "string \<Rightarrow> error + int" where
  "parse_10s s = (if s = ''10s'' then Inr 10000000000 else Inl InvalidTimeoutFormat)"

text \<open>The configuration of the repository's own test "valid config", its endpoint disabled.\<close>

definition disabled_config :: Config where
  "disabled_config =
     \<lparr>Slurm = \<lparr>URL = ''http://localhost:6817'', Timeout = ''10s''\<rparr>,
      Server = \<lparr>Port = 8080,
                BasicAuth = \<lparr>auth_Enabled = True, Username = ''admin'', Password = ''password''\<rparr>,
                SSL = \<lparr>ssl_Enabled = False, CertFile = [], KeyFile = []\<rparr>\<rparr>,
      Endpoints = [\<lparr>Name = ''jobs'', Path = ''/metrics/jobs'', Enabled = False\<rparr>],
      Labels = [],
      Logging = \<lparr>Level = ''info'', Output = ''stdout''\<rparr>\<rparr>"

text \<open>Two extra labels, and a family whose one metric, at address 0, already has a label \<^verbatim>\<open>cluster\<close>.\<close>

definition sample_labels :: "(string, string) gomap" where
  "sample_labels = [(''cluster'', ''c1''), (''env'', ''prod'')]"

definition sample_family :: MetricFamily where
  "sample_family =
     \<lparr>family_Name = ''slurm_nodes_idle'', family_Help = [], family_Type = GAUGE,
      family_Metric = [0]\<rparr>"

definition sample_heap :: "unit heap" where
  "sample_heap = (\<lambda>a. \<lparr>Label = [\<lparr>label_Name = ''cluster'', label_Value = ''up''\<rparr>]\<rparr>)"

text \<open>
  A configuration with two enabled endpoints and no extra labels; a client that answers
  every request with status 200 and the URL as the body, and one whose first answer has
  status 503 instead; stand-ins for the library's parser and encoder: the parser makes of
  a text one family of that name with one metric, the encoder writes the name of a family
  on a line.
\<close>

definition two_endpoints :: Config where
  "two_endpoints =
     disabled_config
       \<lparr>Slurm := \<lparr>URL = ''http://slurm'', Timeout = ''10s''\<rparr>,
        Endpoints := [\<lparr>Name = ''jobs'', Path = ''/jobs'', Enabled = True\<rparr>,
                      \<lparr>Name = ''nodes'', Path = ''/nodes'', Enabled = True\<rparr>]\<rparr>"

definition url_client :: "nat \<Rightarrow> string \<Rightarrow> string option exchange" where
  "url_client i url = Response 200 (Some url)"

definition failing_first_client :: "nat \<Rightarrow> string \<Rightarrow> string option exchange" where
  "failing_first_client i url = (if i = 0 then Response 503 (Some url) else Response 200 (Some url))"

definition named_family :: "string \<Rightarrow> MetricFamily" where
  "named_family name =
     \<lparr>family_Name = name, family_Help = [], family_Type = UNTYPED, family_Metric = [0]\<rparr>"

definition bare_heap :: "unit heap" where
  "bare_heap = (\<lambda>a. \<lparr>Label = []\<rparr>)"

definition one_family_parser :: "unit text_parser" where
  "one_family_parser text = Inr ([(text, named_family text)], bare_heap)"

text \<open>What the two endpoints yield when both are collected, in the order of their declaration.\<close>

definition both_collected :: "(string, MetricFamily list \<times> unit heap) gomap" where
  "both_collected =
     [(''jobs'', [named_family ''http://slurm/jobs''], bare_heap),
      (''nodes'', [named_family ''http://slurm/nodes''], bare_heap)]"

definition name_encoder :: "unit encoder" where
  "name_encoder h family = Inr (family_Name family @ [CHR 0x0A])"

definition empty_registry :: Registry where
  "empty_registry =
     \<lparr>ScrapeDuration = Map.empty, ScrapeSuccess = Map.empty, ScrapeErrors = Map.empty\<rparr>"

definition fresh_response :: ResponseWriter where
  "fresh_response = \<lparr>status_code = None, written = []\<rparr>"

text \<open>
  The library's parser answers a line that has a name and no value, such as \<^verbatim>\<open>foo\<close>, with
  an error; this stand-in does so on that one text.
\<close>

definition strict_parser :: "unit text_parser" where
  "strict_parser text =
     (if text = ''foo'' @ [CHR 0x0A] then Inl FailedToParseMetrics else one_family_parser text)"

text \<open>A double quote, a backslash and a newline, for writing exposition text.\<close>

definition dq :: string where
  "dq = [CHR 0x22]"

definition bsl :: string where
  "bsl = [CHR 0x5C]"

definition nl :: string where
  "nl = [CHR 0x0A]"

section \<open>Validation and enabled endpoints\<close>

lemma validate_endpoints_flags:
  "validate_endpoints i (map (\<lambda>e. e\<lparr>Enabled := f e\<rparr>) es) = validate_endpoints i es"
  by (induction es arbitrary: i) simp_all

text \<open>
  C8 (as amended). \<^verbatim>\<open>Validate\<close> returns an error for every configuration whose list of
  endpoints is empty. It never reads the \<^verbatim>\<open>enabled\<close> flag of an endpoint: setting the
  flags of the endpoints in any way \<open>f\<close> does not change whether the configuration is
  rejected. So what validation guarantees is a configured endpoint, not an enabled one.
\<close>

theorem Validate_requires_configured_endpoint:
  "(Endpoints c = [] \<longrightarrow> isl (Validate pd c))
   \<and> isl (Validate pd (c\<lparr>Endpoints := map (\<lambda>e. e\<lparr>Enabled := f e\<rparr>) (Endpoints c)\<rparr>))
       = isl (Validate pd c)"
proof (intro conjI impI)
  assume "Endpoints c = []"
  then show "isl (Validate pd c)"
    by (simp add: Validate_def)
next
  show "isl (Validate pd (c\<lparr>Endpoints := map (\<lambda>e. e\<lparr>Enabled := f e\<rparr>) (Endpoints c)\<rparr>))
        = isl (Validate pd c)"
    by (auto simp: Validate_def validate_endpoints_flags validLevels_def Let_def
          split: option.splits)
qed

theorem Validate_requires_configured_endpoint_witness:
  "isl (Validate parse_10s (disabled_config\<lparr>Endpoints := []\<rparr>))
   \<and> isl (Validate parse_10s
        (disabled_config\<lparr>Endpoints := map (\<lambda>e. e\<lparr>Enabled := True\<rparr>) (Endpoints disabled_config)\<rparr>))
       = isl (Validate parse_10s disabled_config)"
  using Validate_requires_configured_endpoint
    [of "disabled_config\<lparr>Endpoints := []\<rparr>" parse_10s "\<lambda>e. True"]
    Validate_requires_configured_endpoint [of disabled_config parse_10s "\<lambda>e. True"]
  by simp

text \<open>
  The claim as stated fails: the configuration of the repository's test "valid config",
  with its one endpoint disabled, passes \<^verbatim>\<open>Validate\<close> unchanged and has no enabled endpoint.
\<close>

theorem Validate_accepts_no_enabled_endpoint:
  "Validate parse_10s disabled_config = Inr disabled_config
   \<and> GetEnabledEndpoints disabled_config = []"
  by (simp add: Validate_def disabled_config_def parse_10s_def validLevels_def
        GetEnabledEndpoints_def)

section \<open>Label injection\<close>

subsection \<open>On parsed families\<close>

lemma label_metrics_at:
  "label_metrics cl ms h a
   = (h a)\<lparr>Label := Label (h a) @ concat (replicate (count_list ms a) cl)\<rparr>"
  by (induction ms arbitrary: h) simp_all

lemma label_metrics_append:
  "label_metrics cl (xs @ ys) h = label_metrics cl ys (label_metrics cl xs h)"
  by (induction xs arbitrary: h) simp_all

lemma label_families_metrics:
  "label_families cl fs h = label_metrics cl (concat (map family_Metric fs)) h"
  by (induction fs arbitrary: h) (simp_all add: label_metrics_append)

lemma filter_key_distinct:
  "distinct (map fst it) \<Longrightarrow> (k, v) \<in> set it \<Longrightarrow> filter (\<lambda>p. fst p = k) it = [(k, v)]"
  by (induction it) (auto simp: filter_empty_conv rev_image_eqI)

lemma range_order_distinct:
  "range_order m it \<Longrightarrow> distinct (map fst m) \<Longrightarrow> distinct (map fst it)"
  by (metis range_order_def mset_map mset_eq_imp_distinct_iff)

lemma customLabels_filter:
  "filter (\<lambda>p. label_Name p = k) (customLabels it) = customLabels (filter (\<lambda>p. fst p = k) it)"
  by (induction it) (auto simp: customLabels_def)

lemma mset_concat_replicate:
  "mset (concat (replicate n xs)) = repeat_mset n (mset xs)"
  by (induction n) simp_all

lemma mset_customLabels:
  "range_order m it \<Longrightarrow> mset (customLabels it) = mset (customLabels m)"
  by (simp add: customLabels_def range_order_def)

lemma range_order_single:
  "range_order m it \<Longrightarrow> length m \<le> 1 \<Longrightarrow> it = m"
  by (cases m; cases "tl m") (auto simp: range_order_def)

subsection \<open>On raw text\<close>

lemma split_lines_line:
  "CHR 0x0A \<notin> set a \<Longrightarrow> split_lines cur (a @ CHR 0x0A # b) = (cur @ a) # split_lines [] b"
  by (induction a arbitrary: cur) auto

lemma split_lines_complete:
  "pre \<noteq> [] \<Longrightarrow> last pre = CHR 0x0A \<Longrightarrow>
   split_lines cur (pre @ rest) = split_lines cur pre @ split_lines [] rest"
proof (induction pre arbitrary: cur)
  case Nil
  then show ?case by simp
next
  case (Cons c pre)
  then show ?case by (cases "pre = []") auto
qed

lemma split_lines_around:
  assumes "pre = [] \<or> last pre = CHR 0x0A" and "CHR 0x0A \<notin> set line"
  shows "split_lines [] (pre @ line @ CHR 0x0A # post)
         = split_lines [] pre @ line # split_lines [] post"
proof (cases "pre = []")
  case True
  with assms(2) show ?thesis using split_lines_line [of line "[]" post] by simp
next
  case False
  with assms have "last pre = CHR 0x0A" by simp
  with False assms(2) show ?thesis
    using split_lines_complete [of pre "[]" "line @ CHR 0x0A # post"]
      split_lines_line [of line "[]" post] by simp
qed

lemma scan_lines_around:
  assumes "pre = [] \<or> last pre = CHR 0x0A" and "CHR 0x0A \<notin> set line"
    and "\<forall>l\<in>set (split_lines [] pre). length l < MaxScanTokenSize"
    and "length line < MaxScanTokenSize"
  shows "scan_lines (pre @ line @ CHR 0x0A # post)
         = scan_lines pre @ dropCR line # scan_lines post"
proof -
  from assms(3) have "takeWhile (\<lambda>l. length l < MaxScanTokenSize) (split_lines [] pre)
                      = split_lines [] pre"
    by (simp add: takeWhile_eq_all_conv)
  with assms(3,4) show ?thesis
    by (simp add: scan_lines_def split_lines_around [OF assms(1,2)] takeWhile_append2
          del: takeWhile_eq_all_conv)
qed

lemma relabel_lines_acc:
  "relabel_lines ls xs acc
   = (case relabel_lines ls xs [] of Inl p \<Rightarrow> Inl p | Inr r \<Rightarrow> Inr (acc @ r))"
proof (induction xs arbitrary: acc)
  case Nil
  then show ?case by simp
next
  case (Cons x xs)
  show ?case
  proof (cases "relabel_line ls x")
    case (Inl p)
    then show ?thesis by simp
  next
    case (Inr out)
    then show ?thesis
      using Cons.IH [of "acc @ out"] Cons.IH [of out] by (simp split: sum.splits)
  qed
qed

lemma relabel_lines_append:
  "relabel_lines ls (xs @ ys) acc
   = (case relabel_lines ls xs acc of Inl p \<Rightarrow> Inl p | Inr a \<Rightarrow> relabel_lines ls ys a)"
  by (induction xs arbitrary: acc) (simp_all split: sum.splits)

lemma relabel_line_few_fields:
  "length (Fields line) < 2 \<Longrightarrow> relabel_line ls line = Inr (line @ [CHR 0x0A])"
  by (simp add: relabel_line_def Let_def)

lemma blank_no_fields:
  "blank_from k s \<Longrightarrow> Fields_from k cur s = (if cur = [] then [] else [cur])"
  by (induction k cur s rule: Fields_from.induct) (auto split: if_splits)

lemma Index_first: "c \<notin> set name \<Longrightarrow> Index (name @ c # rest) c = length name"
  by (induction name) (auto simp: Index_def)

lemma relabel_line_braced:
  assumes "\<not> HasPrefix line ''#''"
    and "Fields line = (name @ [CHR 0x7B] @ existing @ [c]) # f # fs"
    and "CHR 0x7B \<notin> set name"
  shows "relabel_line ls line
         = Inr (name @ [CHR 0x7B] @ existing @ '','' @ ls @ [CHR 0x7D] @ '' ''
                @ Join (f # fs) '' '' @ [CHR 0x0A])"
proof -
  from assms(2) have "\<not> TrimSpace_is_empty line"
    using blank_no_fields [of 0 line "[]"] by (auto simp: TrimSpace_is_empty_def Fields_def)
  with assms show ?thesis
    by (simp add: relabel_line_def Let_def Index_first)
qed

lemma skipped_line_between:
  assumes "labels \<noteq> []"
    and "pre = [] \<or> last pre = CHR 0x0A"
    and "\<forall>l\<in>set (split_lines [] pre). length l < MaxScanTokenSize"
    and "CHR 0x0A \<notin> set line" and "length line < MaxScanTokenSize"
    and "length (Fields (dropCR line)) < 2"
    and "addCustomLabels_text labels \<rho> pre = Inr a"
    and "addCustomLabels_text labels \<rho> post = Inr b"
  shows "addCustomLabels_text labels \<rho> (pre @ line @ CHR 0x0A # post)
         = Inr (a @ dropCR line @ CHR 0x0A # b)"
proof -
  let ?ls = "labelsStr (\<rho> labels)"
  from assms(1,7) have a: "relabel_lines ?ls (scan_lines pre) [] = Inr a"
    by (simp add: addCustomLabels_text_def)
  from assms(1,8) have b: "relabel_lines ?ls (scan_lines post) [] = Inr b"
    by (simp add: addCustomLabels_text_def)
  have "relabel_lines ?ls (scan_lines pre @ dropCR line # scan_lines post) []
        = Inr (a @ dropCR line @ CHR 0x0A # b)"
    using a b relabel_line_few_fields [OF assms(6), of ?ls]
      relabel_lines_acc [of ?ls "scan_lines post" "a @ dropCR line @ [CHR 0x0A]"]
    by (simp add: relabel_lines_append)
  with assms(1) show ?thesis
    by (simp add: addCustomLabels_text_def scan_lines_around [OF assms(2,4,3,5)])
qed

lemma collectEndpoint_text_no_failure:
  "collectEndpoint_text c \<rho> (\<lambda>url. Response 200 (Some text)) endpoint \<noteq> Failure e"
  by (simp add: collectEndpoint_text_def split: sum.splits)

lemma collectEndpoint_parse_error:
  "P text = Inl err \<Longrightarrow>
   collectEndpoint c P \<rho>f \<rho>l (\<lambda>url. Response 200 (Some text)) endpoint
   = Failure FailedToParseMetrics"
  by (simp add: collectEndpoint_def parseMetrics_def)

subsection \<open>The claims on label injection\<close>

text \<open>
  C5. With an empty mapping of extra labels, \<^verbatim>\<open>addCustomLabels\<close> is the identity: the
  collector on parsed families returns the slice it was given and leaves every metric as
  it was, and the collector on raw text returns the text it was given.
\<close>

theorem addCustomLabels_empty_mapping:
  assumes "labels = []"
  shows "addCustomLabels labels \<rho> families h = (families, h)
         \<and> addCustomLabels_text labels \<rho>' metricsText = Inr metricsText"
  using assms by (simp add: addCustomLabels_def addCustomLabels_text_def)

theorem addCustomLabels_empty_mapping_witness:
  "addCustomLabels [] rev [sample_family] sample_heap = ([sample_family], sample_heap)
   \<and> addCustomLabels_text [] rev (''slurm_nodes_idle 5'' @ nl) = Inr (''slurm_nodes_idle 5'' @ nl)"
  using addCustomLabels_empty_mapping
    [of "[]" rev "[sample_family]" sample_heap rev "''slurm_nodes_idle 5'' @ nl"]
  by simp

text \<open>
  C1 (as amended). \<^verbatim>\<open>addCustomLabels\<close> puts the extra labels after the labels a sample
  already has and does not look for keys that occur in both. For a metric that the
  families reference once, the label list afterwards is the original list followed by one
  pair for every entry of the mapping, in the order of the loop over the mapping; so for a
  key \<open>k\<close> that the mapping sends to \<open>v\<close>, the pairs of the original list with that key stay
  where they were, with their values, and one pair \<open>(k, v)\<close> follows them. The collector
  on raw text does the same with text: for a line whose first field is \<^verbatim>\<open>name{existing}\<close>,
  the existing labels are copied and the extra labels follow after a comma.
\<close>

theorem addCustomLabels_appends_after_original:
  assumes "distinct (map fst labels)"
    and "range_order labels (\<rho> labels)"
    and "(k, v) \<in> set labels"
    and "count_list (concat (map family_Metric families)) a = 1"
    and "addCustomLabels labels \<rho> families h = (families', h')"
    and "\<not> HasPrefix line ''#''"
    and "Fields line = (name @ [CHR 0x7B] @ existing @ [c]) # f # fs"
    and "CHR 0x7B \<notin> set name"
  shows "Label (h' a) = Label (h a) @ customLabels (\<rho> labels)
     \<and> filter (\<lambda>p. label_Name p = k) (Label (h' a))
         = filter (\<lambda>p. label_Name p = k) (Label (h a)) @ [\<lparr>label_Name = k, label_Value = v\<rparr>]
     \<and> relabel_line (labelsStr (\<rho> labels)) line
         = Inr (name @ [CHR 0x7B] @ existing @ '','' @ labelsStr (\<rho> labels) @ [CHR 0x7D] @ '' ''
                @ Join (f # fs) '' '' @ [CHR 0x0A])"
proof -
  from assms(3) have ne: "labels \<noteq> []" by auto
  with assms(4,5) have app: "Label (h' a) = Label (h a) @ customLabels (\<rho> labels)"
    by (auto simp: addCustomLabels_def label_families_metrics label_metrics_at)
  have "distinct (map fst (\<rho> labels))"
    using assms(2,1) by (rule range_order_distinct)
  moreover have "(k, v) \<in> set (\<rho> labels)"
    using assms(2,3) by (metis range_order_def mset_eq_setD)
  ultimately have "filter (\<lambda>p. fst p = k) (\<rho> labels) = [(k, v)]"
    by (rule filter_key_distinct)
  then have "filter (\<lambda>p. label_Name p = k) (customLabels (\<rho> labels))
             = [\<lparr>label_Name = k, label_Value = v\<rparr>]"
    by (simp add: customLabels_filter) (simp add: customLabels_def)
  with app relabel_line_braced [OF assms(6,7,8)] show ?thesis by simp
qed

theorem addCustomLabels_appends_after_original_witness:
  "Label (snd (addCustomLabels sample_labels rev [sample_family] sample_heap) 0)
     = Label (sample_heap 0) @ customLabels (rev sample_labels)
   \<and> filter (\<lambda>p. label_Name p = ''cluster'')
        (Label (snd (addCustomLabels sample_labels rev [sample_family] sample_heap) 0))
     = [\<lparr>label_Name = ''cluster'', label_Value = ''up''\<rparr>,
        \<lparr>label_Name = ''cluster'', label_Value = ''c1''\<rparr>]
   \<and> relabel_line (labelsStr (rev sample_labels)) (''m{cluster='' @ dq @ ''up'' @ dq @ ''} 1'')
     = Inr (''m{cluster='' @ dq @ ''up'' @ dq @ '',env='' @ dq @ ''prod'' @ dq
            @ '',cluster='' @ dq @ ''c1'' @ dq @ ''} 1'' @ nl)"
proof -
  have fields: "Fields (''m{cluster='' @ dq @ ''up'' @ dq @ ''} 1'')
                = (''m'' @ [CHR 0x7B] @ (''cluster='' @ dq @ ''up'' @ dq) @ [CHR 0x7D]) # ''1'' # []"
    by (simp add: Fields_def space_width_def unicode_spaces_def dq_def)
  have "distinct (map fst sample_labels)" "range_order sample_labels (rev sample_labels)"
    "(''cluster'', ''c1'') \<in> set sample_labels"
    "count_list (concat (map family_Metric [sample_family])) 0 = 1"
    "\<not> HasPrefix (''m{cluster='' @ dq @ ''up'' @ dq @ ''} 1'') ''#''"
    "CHR 0x7B \<notin> set ''m''"
    by (simp_all add: sample_labels_def range_order_def sample_family_def HasPrefix_def)
  from addCustomLabels_appends_after_original
    [where \<rho> = rev and labels = sample_labels and h = sample_heap,
     OF this(1-4) surjective_pairing this(5) fields this(6)]
  show ?thesis
    by (simp add: sample_heap_def labelsStr_def sample_labels_def customLabels_def dq_def nl_def)
qed

text \<open>
  The claim as stated fails: the sample has the label \<^verbatim>\<open>cluster="up"\<close>, the mapping sends
  \<^verbatim>\<open>cluster\<close> to \<^verbatim>\<open>c1\<close>, and the output has the key twice, first with the upstream value.
\<close>

theorem addCustomLabels_keeps_upstream_value:
  "map_of sample_labels ''cluster'' = Some ''c1''
   \<and> Label (sample_heap 0) = [\<lparr>label_Name = ''cluster'', label_Value = ''up''\<rparr>]
   \<and> Label (snd (addCustomLabels sample_labels id [sample_family] sample_heap) 0)
       = [\<lparr>label_Name = ''cluster'', label_Value = ''up''\<rparr>,
          \<lparr>label_Name = ''cluster'', label_Value = ''c1''\<rparr>,
          \<lparr>label_Name = ''env'', label_Value = ''prod''\<rparr>]"
  by (simp add: addCustomLabels_def sample_labels_def sample_family_def sample_heap_def
        customLabels_def)

lemma addCustomLabels_at:
  "snd (addCustomLabels labels \<rho> families h) a
   = (h a)\<lparr>Label := Label (h a) @
        (if labels = [] then []
         else concat (replicate (count_list (concat (map family_Metric families)) a)
                        (customLabels (\<rho> labels))))\<rparr>"
  by (simp add: addCustomLabels_def label_families_metrics label_metrics_at)

text \<open>
  C2 (as amended). The output of \<^verbatim>\<open>addCustomLabels\<close> depends on the input, the mapping and
  the order in which the runtime ranges over the mapping. For two invocations on the same
  input, whose loops take the orders \<open>\<rho>a\<close> and \<open>\<rho>b\<close>: the families returned are the same;
  every metric gets its original labels followed by extra labels that are the same up to
  their order; and the two outputs are equal, for the parsed families and for the text,
  when the mapping has at most one entry or the two loops take the same order.
\<close>

theorem addCustomLabels_order_of_the_runtime:
  assumes "range_order labels (\<rho>a labels)" and "range_order labels (\<rho>b labels)"
  shows "fst (addCustomLabels labels \<rho>a families h) = fst (addCustomLabels labels \<rho>b families h)
     \<and> (\<forall>a. \<exists>ls1 ls2.
            snd (addCustomLabels labels \<rho>a families h) a = (h a)\<lparr>Label := Label (h a) @ ls1\<rparr>
          \<and> snd (addCustomLabels labels \<rho>b families h) a = (h a)\<lparr>Label := Label (h a) @ ls2\<rparr>
          \<and> mset ls1 = mset ls2)
     \<and> (length labels \<le> 1 \<or> \<rho>a labels = \<rho>b labels \<longrightarrow>
          addCustomLabels labels \<rho>a families h = addCustomLabels labels \<rho>b families h
          \<and> addCustomLabels_text labels \<rho>a metricsText = addCustomLabels_text labels \<rho>b metricsText)"
proof (intro conjI allI impI)
  show "fst (addCustomLabels labels \<rho>a families h) = fst (addCustomLabels labels \<rho>b families h)"
    by (simp add: addCustomLabels_def)
next
  fix a
  let ?n = "count_list (concat (map family_Metric families)) a"
  let ?ls = "\<lambda>\<rho>. if labels = [] then [] else concat (replicate ?n (customLabels (\<rho> labels)))"
  have "mset (?ls \<rho>a) = mset (?ls \<rho>b)"
    using assms by (simp add: mset_concat_replicate mset_customLabels)
  then show "\<exists>ls1 ls2.
            snd (addCustomLabels labels \<rho>a families h) a = (h a)\<lparr>Label := Label (h a) @ ls1\<rparr>
          \<and> snd (addCustomLabels labels \<rho>b families h) a = (h a)\<lparr>Label := Label (h a) @ ls2\<rparr>
          \<and> mset ls1 = mset ls2"
    using addCustomLabels_at [of labels \<rho>a families h a]
      addCustomLabels_at [of labels \<rho>b families h a] by blast
next
  assume "length labels \<le> 1 \<or> \<rho>a labels = \<rho>b labels"
  then have same: "\<rho>a labels = \<rho>b labels"
    using assms range_order_single [of labels "\<rho>a labels"]
      range_order_single [of labels "\<rho>b labels"] by auto
  then show "addCustomLabels labels \<rho>a families h = addCustomLabels labels \<rho>b families h"
    by (simp add: addCustomLabels_def)
  from same show "addCustomLabels_text labels \<rho>a metricsText
                  = addCustomLabels_text labels \<rho>b metricsText"
    by (simp add: addCustomLabels_text_def)
qed

theorem addCustomLabels_order_of_the_runtime_witness:
  "fst (addCustomLabels sample_labels id [sample_family] sample_heap)
     = fst (addCustomLabels sample_labels rev [sample_family] sample_heap)
   \<and> (\<exists>ls1 ls2.
          snd (addCustomLabels sample_labels id [sample_family] sample_heap) 0
            = (sample_heap 0)\<lparr>Label := Label (sample_heap 0) @ ls1\<rparr>
        \<and> snd (addCustomLabels sample_labels rev [sample_family] sample_heap) 0
            = (sample_heap 0)\<lparr>Label := Label (sample_heap 0) @ ls2\<rparr>
        \<and> mset ls1 = mset ls2)
   \<and> addCustomLabels [(''cluster'', ''c1'')] id [sample_family] sample_heap
       = addCustomLabels [(''cluster'', ''c1'')] rev [sample_family] sample_heap"
proof -
  have "range_order sample_labels (id sample_labels)" "range_order sample_labels (rev sample_labels)"
    by (simp_all add: range_order_def)
  from addCustomLabels_order_of_the_runtime
    [where \<rho>a = id and \<rho>b = rev and labels = sample_labels, OF this,
     of "[sample_family]" sample_heap]
  have one: "fst (addCustomLabels sample_labels id [sample_family] sample_heap)
     = fst (addCustomLabels sample_labels rev [sample_family] sample_heap)
   \<and> (\<exists>ls1 ls2.
          snd (addCustomLabels sample_labels id [sample_family] sample_heap) 0
            = (sample_heap 0)\<lparr>Label := Label (sample_heap 0) @ ls1\<rparr>
        \<and> snd (addCustomLabels sample_labels rev [sample_family] sample_heap) 0
            = (sample_heap 0)\<lparr>Label := Label (sample_heap 0) @ ls2\<rparr>
        \<and> mset ls1 = mset ls2)"
    by blast
  have "range_order [(''cluster'', ''c1'')] (id [(''cluster'', ''c1'')])"
    "range_order [(''cluster'', ''c1'')] (rev [(''cluster'', ''c1'')])"
    by (simp_all add: range_order_def)
  from addCustomLabels_order_of_the_runtime
    [where \<rho>a = id and \<rho>b = rev and labels = "[(''cluster'', ''c1'')]", OF this,
     of "[sample_family]" sample_heap]
  have "addCustomLabels [(''cluster'', ''c1'')] id [sample_family] sample_heap
       = addCustomLabels [(''cluster'', ''c1'')] rev [sample_family] sample_heap"
    by simp
  with one show ?thesis by blast
qed

text \<open>
  The claim as stated fails: with two extra labels the runtime may range over the mapping
  in either order, and the two outputs differ, in the label lists and in the text.
\<close>

theorem addCustomLabels_two_orders_differ:
  "range_order sample_labels (id sample_labels)
   \<and> range_order sample_labels (rev sample_labels)
   \<and> Label (snd (addCustomLabels sample_labels id [sample_family] sample_heap) 0)
       = [\<lparr>label_Name = ''cluster'', label_Value = ''up''\<rparr>,
          \<lparr>label_Name = ''cluster'', label_Value = ''c1''\<rparr>,
          \<lparr>label_Name = ''env'', label_Value = ''prod''\<rparr>]
   \<and> Label (snd (addCustomLabels sample_labels rev [sample_family] sample_heap) 0)
       = [\<lparr>label_Name = ''cluster'', label_Value = ''up''\<rparr>,
          \<lparr>label_Name = ''env'', label_Value = ''prod''\<rparr>,
          \<lparr>label_Name = ''cluster'', label_Value = ''c1''\<rparr>]
   \<and> addCustomLabels_text sample_labels id (''slurm_nodes_idle 5'' @ nl)
       = Inr (''slurm_nodes_idle{cluster='' @ dq @ ''c1'' @ dq @ '',env='' @ dq @ ''prod'' @ dq
              @ ''} 5'' @ nl)
   \<and> addCustomLabels_text sample_labels rev (''slurm_nodes_idle 5'' @ nl)
       = Inr (''slurm_nodes_idle{env='' @ dq @ ''prod'' @ dq @ '',cluster='' @ dq @ ''c1'' @ dq
              @ ''} 5'' @ nl)"
  by (simp add: range_order_def addCustomLabels_def sample_labels_def sample_family_def
        sample_heap_def customLabels_def addCustomLabels_text_def labelsStr_def scan_lines_def
        dropCR_def MaxScanTokenSize_def relabel_line_def HasPrefix_def TrimSpace_is_empty_def
        Fields_def space_width_def unicode_spaces_def Index_def dq_def nl_def Let_def)

text \<open>
  C6 (as amended). With a mapping that is not empty, \<^verbatim>\<open>addCustomLabels\<close> returns the slice
  of families it was given and writes the labels into the metrics of the input, in place:
  afterwards the metric at every address has its original labels followed by the extra
  labels, once for every reference to it in the families, and its other fields are as
  before. A metric that the families do not reference is unchanged, and the families
  themselves (name, help, type, list of metrics) are not written.
\<close>

theorem addCustomLabels_writes_in_place:
  assumes "labels \<noteq> []"
    and "addCustomLabels labels \<rho> families h = (families', h')"
  shows "families' = families
     \<and> (\<forall>a. h' a = (h a)\<lparr>Label := Label (h a) @
             concat (replicate (count_list (concat (map family_Metric families)) a)
                       (customLabels (\<rho> labels)))\<rparr>)"
  using assms
  by (auto simp: addCustomLabels_def label_families_metrics label_metrics_at)

theorem addCustomLabels_writes_in_place_witness:
  "fst (addCustomLabels sample_labels id [sample_family] sample_heap) = [sample_family]
   \<and> snd (addCustomLabels sample_labels id [sample_family] sample_heap) 0
       = (sample_heap 0)\<lparr>Label := Label (sample_heap 0) @ customLabels sample_labels\<rparr>
   \<and> snd (addCustomLabels sample_labels id [sample_family] sample_heap) 1 = sample_heap 1"
proof -
  have "sample_labels \<noteq> []" by (simp add: sample_labels_def)
  from addCustomLabels_writes_in_place
    [where \<rho> = id and labels = sample_labels, OF this surjective_pairing,
     of "[sample_family]" sample_heap]
  show ?thesis by (simp add: sample_family_def)
qed

text \<open>
  The claim as stated fails: the metric of the input family has one label before the call
  and three after it.
\<close>

theorem addCustomLabels_changes_its_input:
  "Label (sample_heap 0) = [\<lparr>label_Name = ''cluster'', label_Value = ''up''\<rparr>]
   \<and> length (Label (snd (addCustomLabels sample_labels id [sample_family] sample_heap) 0)) = 3
   \<and> snd (addCustomLabels sample_labels id [sample_family] sample_heap) 0 \<noteq> sample_heap 0"
  by (simp add: addCustomLabels_def sample_labels_def sample_family_def sample_heap_def
        customLabels_def)

text \<open>
  C7 (as amended). In the collector on raw text, with extra labels configured, a line with
  fewer than two fields is copied to the output as the scanner delivers it, and the text
  before and after it is relabelled as it would be on its own: for a text \<open>pre\<close> of whole
  lines that fit the scanner's buffer and any text \<open>post\<close>, if relabelling \<open>pre\<close> gives
  \<open>a\<close> and relabelling \<open>post\<close> gives \<open>b\<close>, the whole gives \<open>a\<close>, the line, \<open>b\<close>. No content
  of a body that was read makes this collector report a failure of the endpoint. In the
  collector on parsed families the library's parser decides what is malformed, and a body
  that it rejects fails the collection of that endpoint.
\<close>

theorem malformed_line_is_copied:
  assumes "labels \<noteq> []"
    and "pre = [] \<or> last pre = CHR 0x0A"
    and "\<forall>l\<in>set (split_lines [] pre). length l < MaxScanTokenSize"
    and "CHR 0x0A \<notin> set line" and "length line < MaxScanTokenSize"
    and "length (Fields (dropCR line)) < 2"
    and "addCustomLabels_text labels \<rho> pre = Inr a"
    and "addCustomLabels_text labels \<rho> post = Inr b"
    and "P text = Inl err"
  shows "addCustomLabels_text labels \<rho> (pre @ line @ CHR 0x0A # post)
         = Inr (a @ dropCR line @ CHR 0x0A # b)
     \<and> (\<forall>e. collectEndpoint_text c \<rho>' (\<lambda>url. Response 200 (Some text')) endpoint \<noteq> Failure e)
     \<and> collectEndpoint c P \<rho>f \<rho>l (\<lambda>url. Response 200 (Some text)) endpoint
         = Failure FailedToParseMetrics"
  using skipped_line_between [OF assms(1-8)] collectEndpoint_text_no_failure
    collectEndpoint_parse_error [where P = P, OF assms(9)]
  by simp

theorem malformed_line_is_copied_witness:
  "addCustomLabels_text [(''cluster'', ''c1'')] id
     ((''x 1'' @ nl) @ ''bad'' @ CHR 0x0A # (''y 2'' @ nl))
   = Inr ((''x{cluster='' @ dq @ ''c1'' @ dq @ ''} 1'' @ nl) @ ''bad'' @ CHR 0x0A #
          (''y{cluster='' @ dq @ ''c1'' @ dq @ ''} 2'' @ nl))
   \<and> collectEndpoint two_endpoints strict_parser id id
        (\<lambda>url. Response 200 (Some (''foo'' @ [CHR 0x0A]))) (hd (Endpoints two_endpoints))
      = Failure FailedToParseMetrics"
proof -
  have ev: "[(''cluster'', ''c1'')] \<noteq> []"
    "''x 1'' @ nl = [] \<or> last (''x 1'' @ nl) = CHR 0x0A"
    "\<forall>l\<in>set (split_lines [] (''x 1'' @ nl)). length l < MaxScanTokenSize"
    "CHR 0x0A \<notin> set ''bad''" "length ''bad'' < MaxScanTokenSize"
    "length (Fields (dropCR ''bad'')) < 2"
    by (simp_all add: nl_def MaxScanTokenSize_def dropCR_def Fields_def space_width_def
          unicode_spaces_def)
  have pre: "addCustomLabels_text [(''cluster'', ''c1'')] id (''x 1'' @ nl)
             = Inr (''x{cluster='' @ dq @ ''c1'' @ dq @ ''} 1'' @ nl)"
    and post: "addCustomLabels_text [(''cluster'', ''c1'')] id (''y 2'' @ nl)
             = Inr (''y{cluster='' @ dq @ ''c1'' @ dq @ ''} 2'' @ nl)"
    by (simp_all add: addCustomLabels_text_def labelsStr_def scan_lines_def
          dropCR_def MaxScanTokenSize_def relabel_line_def HasPrefix_def TrimSpace_is_empty_def
          Fields_def space_width_def unicode_spaces_def Index_def dq_def nl_def Let_def)
  have rej: "strict_parser (''foo'' @ [CHR 0x0A]) = Inl FailedToParseMetrics"
    by (simp add: strict_parser_def)
  from malformed_line_is_copied
    [where \<rho> = id and labels = "[(''cluster'', ''c1'')]" and P = strict_parser
       and c = two_endpoints and \<rho>f = id and \<rho>l = id and \<rho>' = id and text' = "[]"
       and endpoint = "hd (Endpoints two_endpoints)",
     OF ev pre post rej]
  show ?thesis by (simp add: dropCR_def)
qed

text \<open>
  The claim as stated fails. In the collector on parsed families a body with the line
  \<^verbatim>\<open>foo\<close>, which the parser rejects, fails the endpoint. In the collector on raw text the
  line \<^verbatim>\<open>m{ 1\<close> has two fields, the first ending in its opening brace, and the slice
  expression panics: the endpoint is not collected and the call does not return.
\<close>

theorem malformed_line_fails_the_endpoint:
  "collectEndpoint two_endpoints strict_parser id id
     (\<lambda>url. Response 200 (Some (''foo'' @ nl))) (hd (Endpoints two_endpoints))
   = Failure FailedToParseMetrics
   \<and> collectEndpoint_text (two_endpoints\<lparr>Labels := sample_labels\<rparr>) id
       (\<lambda>url. Response 200 (Some (''m{ 1'' @ nl))) (hd (Endpoints two_endpoints))
     = Panic (SliceBoundsOutOfRange 2 1)"
  by (simp add: collectEndpoint_def parseMetrics_def strict_parser_def two_endpoints_def
        disabled_config_def collectEndpoint_text_def addCustomLabels_text_def sample_labels_def
        labelsStr_def scan_lines_def dropCR_def MaxScanTokenSize_def relabel_line_def
        HasPrefix_def TrimSpace_is_empty_def Fields_def space_width_def unicode_spaces_def
        Index_def nl_def Let_def)

text \<open>
  C9. The collector on raw text cuts a line at white space before it looks for the labels,
  so white space inside a label value ends the first field. For the line
  \<^verbatim>\<open>m{l="a \"b\\"} 1\<close>, whose label value holds a blank, a quote and a backslash, the
  output is \<^verbatim>\<open>m{l=",cluster="c1"} \"b\\"} 1\<close>: the value is cut after its opening quote
  (the slice also drops the \<^verbatim>\<open>a\<close>), and the rest of it follows the closing brace.
\<close>

theorem label_value_with_blank_is_cut:
  "addCustomLabels_text [(''cluster'', ''c1'')] id
     (''m{l='' @ dq @ ''a '' @ bsl @ dq @ ''b'' @ bsl @ bsl @ dq @ ''} 1'' @ nl)
   = Inr (''m{l='' @ dq @ '',cluster='' @ dq @ ''c1'' @ dq @ ''} ''
          @ bsl @ dq @ ''b'' @ bsl @ bsl @ dq @ ''} 1'' @ nl)"
  by (simp add: addCustomLabels_text_def labelsStr_def scan_lines_def
        dropCR_def MaxScanTokenSize_def relabel_line_def HasPrefix_def TrimSpace_is_empty_def
        Fields_def space_width_def unicode_spaces_def Index_def dq_def bsl_def nl_def Let_def)

section \<open>Collecting from all endpoints\<close>

subsection \<open>The loop\<close>

lemma ScrapeSuccess_failed:
  "ScrapeSuccess (IncErrors n (SetSuccess n v (ObserveDuration n (NewTimer n reg))))
     = (ScrapeSuccess reg)(n \<mapsto> v)"
  by (simp add: IncErrors_def SetSuccess_def ObserveDuration_def NewTimer_def split: option.splits)

lemma ScrapeSuccess_collected:
  "ScrapeSuccess (SetSuccess n v (ObserveDuration n (NewTimer n reg)))
     = (ScrapeSuccess reg)(n \<mapsto> v)"
  by (simp add: SetSuccess_def ObserveDuration_def NewTimer_def split: option.splits)

lemma CollectAll_loop_frame:
  assumes "CollectAll_loop collect j es results reg = (Inr results', reg')"
    and "n \<notin> Name ` set es"
  shows "map_of results' n = map_of results n \<and> ScrapeSuccess reg' n = ScrapeSuccess reg n"
  using assms
proof (induction es arbitrary: j results reg)
  case Nil
  then show ?case by simp
next
  case (Cons e es)
  then show ?case
    by (cases "collect j e")
       (auto simp: update_conv' ScrapeSuccess_failed ScrapeSuccess_collected
             dest!: Cons.IH)
qed

lemma CollectAll_loop_returns:
  assumes "\<forall>i<length es. \<forall>p. collect (j + i) (es ! i) \<noteq> Panic p"
  shows "\<exists>results' reg'. CollectAll_loop collect j es results reg = (Inr results', reg')"
  using assms
proof (induction es arbitrary: j results reg)
  case Nil
  then show ?case by simp
next
  case (Cons e es)
  from Cons.prems have here: "\<forall>p. collect j e \<noteq> Panic p" by force
  from Cons.prems have rest: "\<forall>i<length es. \<forall>p. collect (Suc j + i) (es ! i) \<noteq> Panic p"
    by force
  show ?case
  proof (cases "collect j e")
    case (Panic p)
    with here show ?thesis by simp
  next
    case (Failure err)
    then show ?thesis using Cons.IH [OF rest] by simp
  next
    case (Success r)
    then show ?thesis using Cons.IH [OF rest] by simp
  qed
qed

lemma CollectAll_loop_each:
  assumes "CollectAll_loop collect j es results reg = (Inr results', reg')"
    and "distinct (map Name es)"
    and "i < length es"
  shows "(case collect (j + i) (es ! i) of
            Success r \<Rightarrow> map_of results' (Name (es ! i)) = Some r
                        \<and> ScrapeSuccess reg' (Name (es ! i)) = Some 1
          | Failure err \<Rightarrow> map_of results' (Name (es ! i)) = map_of results (Name (es ! i))
                        \<and> ScrapeSuccess reg' (Name (es ! i)) = Some 0
          | Panic p \<Rightarrow> False)"
  using assms
proof (induction es arbitrary: i j results reg)
  case Nil
  then show ?case by simp
next
  case (Cons e es)
  from Cons.prems(2) have fresh: "Name e \<notin> Name ` set es" and dist: "distinct (map Name es)"
    by auto
  show ?case
  proof (cases i)
    case 0
    show ?thesis
    proof (cases "collect j e")
      case (Panic p)
      with Cons.prems(1) show ?thesis by simp
    next
      case (Failure err)
      with Cons.prems(1) CollectAll_loop_frame [OF _ fresh] 0 show ?thesis
        by (fastforce simp: ScrapeSuccess_failed)
    next
      case (Success r)
      with Cons.prems(1) CollectAll_loop_frame [OF _ fresh] 0 show ?thesis
        by (fastforce simp: ScrapeSuccess_collected update_conv')
    qed
  next
    case (Suc k)
    with Cons.prems(3) have k: "k < length es" by simp
    then have "es ! k \<in> set es" by simp
    with fresh have other: "Name (es ! k) \<noteq> Name e" by (metis imageI)
    show ?thesis
    proof (cases "collect j e")
      case (Panic p)
      with Cons.prems(1) show ?thesis by simp
    next
      case (Failure err)
      with Cons.prems(1) have
        "CollectAll_loop collect (Suc j) es results
           (IncErrors (Name e) (SetSuccess (Name e) 0 (ObserveDuration (Name e) (NewTimer (Name e) reg))))
         = (Inr results', reg')" by simp
      from Cons.IH [OF this dist k] Suc show ?thesis
        by (auto split: outcome.splits)
    next
      case (Success r)
      with Cons.prems(1) have
        "CollectAll_loop collect (Suc j) es (AList.update (Name e) r results)
           (SetSuccess (Name e) 1 (ObserveDuration (Name e) (NewTimer (Name e) reg)))
         = (Inr results', reg')" by simp
      from Cons.IH [OF this dist k] Suc other show ?thesis
        by (auto simp: update_conv' split: outcome.splits)
    qed
  qed
qed

lemma update_fresh: "k \<notin> fst ` set al \<Longrightarrow> AList.update k v al = al @ [(k, v)]"
  by (induction al) auto

lemma CollectAll_loop_results:
  assumes "CollectAll_loop collect j es results reg = (Inr results', reg')"
    and "distinct (map Name es)"
    and "fst ` set results \<inter> Name ` set es = {}"
  shows "results' = results @ collected collect j es"
  using assms
proof (induction es arbitrary: j results reg)
  case Nil
  then show ?case by simp
next
  case (Cons e es)
  show ?case
  proof (cases "collect j e")
    case (Panic p)
    with Cons.prems(1) show ?thesis by simp
  next
    case (Failure err)
    with Cons.prems Cons.IH [of "Suc j" results] show ?thesis by auto
  next
    case (Success r)
    from Cons.prems(3) have "Name e \<notin> fst ` set results" by auto
    then have upd: "AList.update (Name e) r results = results @ [(Name e, r)]"
      by (rule update_fresh)
    from Cons.prems(2,3) have "fst ` set (results @ [(Name e, r)]) \<inter> Name ` set es = {}"
      by auto
    with Success Cons.prems upd Cons.IH [of "Suc j" "results @ [(Name e, r)]"] show ?thesis
      by auto
  qed
qed

lemma CollectAll_returns:
  assumes "\<forall>i<length (GetEnabledEndpoints c). \<forall>p. collect i (GetEnabledEndpoints c ! i) \<noteq> Panic p"
  shows "\<exists>results reg'. CollectAll collect c reg = (Inr (results, None), reg')
           \<and> CollectAll_loop collect 0 (GetEnabledEndpoints c) [] reg = (Inr results, reg')"
proof -
  from assms have
    "\<forall>i<length (GetEnabledEndpoints c). \<forall>p. collect (0 + i) (GetEnabledEndpoints c ! i) \<noteq> Panic p"
    by simp
  from CollectAll_loop_returns [OF this, of "[]" reg]
  show ?thesis by (auto simp: CollectAll_def)
qed

lemma collectEndpoint_no_panic:
  "collectEndpoint c P \<rho>f \<rho>l client e \<noteq> Panic p"
  by (simp add: collectEndpoint_def split: exchange.splits sum.splits prod.splits)

lemma sent_status_Write: "sent_status (Write b w) = sent_status w"
  by (simp add: sent_status_def Write_def WriteHeader_def split: option.splits)

lemma written_Write: "written (Write b w) = written w @ b"
  by (simp add: Write_def WriteHeader_def split: option.splits)

lemma encode_families_sent_status:
  "sent_status (fst (encode_families Encode h fs w)) = sent_status w"
  by (induction fs arbitrary: w) (auto simp: sent_status_Write split: sum.splits)

lemma write_families_sent_status:
  "sent_status (fst (write_families Encode it w)) = sent_status w"
proof (induction it arbitrary: w)
  case Nil
  then show ?case by simp
next
  case (Cons x it)
  obtain name fs h where x: "x = (name, fs, h)" by (cases x)
  obtain w1 e1 where step: "encode_families Encode h fs w = (w1, e1)"
    by (cases "encode_families Encode h fs w")
  then have "sent_status w1 = sent_status w"
    using encode_families_sent_status [of Encode h fs w] by simp
  with x step Cons.IH [of w1] show ?case by (cases e1) simp_all
qed

lemma encode_families_written:
  assumes "\<forall>f\<in>set fs. \<not> isl (Encode h f)"
  shows "encode_families Encode h fs w = (fst (encode_families Encode h fs w), None)
     \<and> written (fst (encode_families Encode h fs w))
         = written w @ concat (map (\<lambda>f. projr (Encode h f)) fs)"
  using assms
proof (induction fs arbitrary: w)
  case Nil
  then show ?case by simp
next
  case (Cons f fs)
  then obtain t where t: "Encode h f = Inr t" by (cases "Encode h f") auto
  from Cons.prems have "\<forall>f\<in>set fs. \<not> isl (Encode h f)" by simp
  from Cons.IH [OF this, of "Write t w"] t show ?case by (simp add: written_Write)
qed

lemma write_families_written:
  assumes "\<forall>(name, fs, h)\<in>set it. \<forall>f\<in>set fs. \<not> isl (Encode h f)"
  shows "write_families Encode it w = (fst (write_families Encode it w), None)
     \<and> written (fst (write_families Encode it w))
         = written w @ concat (map (\<lambda>(name, fs, h). concat (map (\<lambda>f. projr (Encode h f)) fs)) it)"
  using assms
proof (induction it arbitrary: w)
  case Nil
  then show ?case by simp
next
  case (Cons x it)
  obtain name fs h where x: "x = (name, fs, h)" by (cases x)
  with Cons.prems have ok: "\<forall>f\<in>set fs. \<not> isl (Encode h f)" by simp
  define w1 where "w1 = fst (encode_families Encode h fs w)"
  from encode_families_written [where Encode = Encode and h = h and fs = fs and w = w] ok have
    step: "encode_families Encode h fs w = (w1, None)"
    and wr: "written w1 = written w @ concat (map (\<lambda>f. projr (Encode h f)) fs)"
    by (simp_all add: w1_def)
  from Cons.prems have "\<forall>(name, fs, h)\<in>set it. \<forall>f\<in>set fs. \<not> isl (Encode h f)" by simp
  from Cons.IH [OF this, of w1] x step wr show ?case by simp
qed

subsection \<open>The claims on the scrape\<close>

text \<open>
  C10. \<^verbatim>\<open>CollectAll\<close> of the collector on parsed families returns for every
  configuration, every answer of the upstream and of the parser, and every choice of the
  runtime, and the error it returns is \<^verbatim>\<open>nil\<close>. So \<^verbatim>\<open>handleMetrics\<close> never takes the branch
  that answers 500: whatever \<^verbatim>\<open>WriteMetrics\<close> and the registry are, the handler goes on to
  write the metrics.
\<close>

theorem CollectAll_error_is_nil:
  "\<exists>results reg'.
     CollectAll (\<lambda>i. collectEndpoint c P (\<rho>f i) (\<rho>l i) (client i)) c reg
       = (Inr (results, None), reg')
     \<and> handleMetrics (CollectAll (\<lambda>i. collectEndpoint c P (\<rho>f i) (\<rho>l i) (client i)) c)
          writeMetrics ownMetrics reg w
        = (case writeMetrics results w of
             (w', Some err) \<Rightarrow> (Inr w', reg')
           | (w', None) \<Rightarrow> (Inr (Write (ownMetrics reg') w'), reg'))"
proof -
  obtain results reg' where
    "CollectAll (\<lambda>i. collectEndpoint c P (\<rho>f i) (\<rho>l i) (client i)) c reg
       = (Inr (results, None), reg')"
    using CollectAll_returns [of c "\<lambda>i. collectEndpoint c P (\<rho>f i) (\<rho>l i) (client i)" reg]
    by (auto simp: collectEndpoint_no_panic)
  then show ?thesis by (auto simp: handleMetrics_def)
qed

text \<open>
  C4. Let the enabled endpoints have distinct names (the data model of the
  specification), let \<open>\<rho>w\<close> be an order the runtime may choose, and let the encoder accept
  every family. Whatever the upstream and the parser answer, \<^verbatim>\<open>CollectAll\<close> returns; an
  endpoint whose collection fails (the request fails, the status is not 200, the body
  cannot be read or parsed) is absent from the results and has its success gauge at 0; an
  endpoint that is collected is in the results with what was collected, among the entries
  that \<^verbatim>\<open>WriteMetrics\<close> writes, and has its gauge at 1; and the handler answers with status
  200 and a body made of the text of the entries written, followed by the exporter's own
  metrics.
\<close>

theorem failed_endpoints_are_isolated:
  fixes c :: Config and P :: "'a text_parser" and Encode :: "'a encoder"
    and \<rho>f :: "nat \<Rightarrow> (string, MetricFamily) ranging" and \<rho>l :: "nat \<Rightarrow> (string, string) ranging"
    and client :: "nat \<Rightarrow> string \<Rightarrow> string option exchange"
  defines "es \<equiv> GetEnabledEndpoints c"
    and "collect \<equiv> (\<lambda>i. collectEndpoint c P (\<rho>f i) (\<rho>l i) (client i))"
    and "text_of \<equiv> (\<lambda>(name, fs, h). concat (map (\<lambda>f. projr (Encode h f)) fs))"
  assumes names: "distinct (map Name es)"
    and order: "\<forall>m. range_order m (\<rho>w m)"
    and accepts: "\<forall>h f. \<not> isl (Encode h f)"
  shows "\<exists>results reg' w'.
     CollectAll collect c reg = (Inr (results, None), reg')
     \<and> (\<forall>i<length es.
           case collect i (es ! i) of
             Success r \<Rightarrow> map_of results (Name (es ! i)) = Some r
                         \<and> ScrapeSuccess reg' (Name (es ! i)) = Some 1
                         \<and> (Name (es ! i), r) \<in> set (\<rho>w results)
           | Failure err \<Rightarrow> map_of results (Name (es ! i)) = None
                         \<and> ScrapeSuccess reg' (Name (es ! i)) = Some 0
           | Panic p \<Rightarrow> False)
     \<and> handleMetrics (CollectAll collect c) (WriteMetrics Encode \<rho>w) ownMetrics reg
          \<lparr>status_code = None, written = []\<rparr> = (Inr w', reg')
     \<and> sent_status w' = 200
     \<and> written w' = concat (map text_of (\<rho>w results)) @ ownMetrics reg'"
proof -
  have np: "\<forall>i<length (GetEnabledEndpoints c). \<forall>p. collect i (GetEnabledEndpoints c ! i) \<noteq> Panic p"
    by (simp add: collect_def collectEndpoint_no_panic)
  from CollectAll_returns [where collect = collect and c = c and reg = reg] np
  obtain results reg' where
    all: "CollectAll collect c reg = (Inr (results, None), reg')"
    and loop: "CollectAll_loop collect 0 es [] reg = (Inr results, reg')"
    by (auto simp: es_def)
  define w0 where "w0 = \<lparr>status_code = None, written = []\<rparr>"
  define w1 where "w1 = fst (WriteMetrics Encode \<rho>w results w0)"
  from accepts have "\<forall>(name, fs, h)\<in>set (\<rho>w results). \<forall>f\<in>set fs. \<not> isl (Encode h f)"
    by auto
  from write_families_written [where Encode = Encode and it = "\<rho>w results" and w = w0] this
  have wm: "WriteMetrics Encode \<rho>w results w0 = (w1, None)"
    and wr: "written w1 = concat (map text_of (\<rho>w results))"
    by (simp_all add: WriteMetrics_def w1_def w0_def text_of_def)
  have st: "sent_status w1 = 200"
    using write_families_sent_status [of Encode "\<rho>w results" w0]
    by (simp add: w1_def WriteMetrics_def w0_def sent_status_def)
  have mem: "map_of results k = Some r \<Longrightarrow> (k, r) \<in> set (\<rho>w results)" for k r
    using order by (metis range_order_def map_of_SomeD mset_eq_setD)
  have each: "\<forall>i<length es.
           case collect i (es ! i) of
             Success r \<Rightarrow> map_of results (Name (es ! i)) = Some r
                         \<and> ScrapeSuccess reg' (Name (es ! i)) = Some 1
                         \<and> (Name (es ! i), r) \<in> set (\<rho>w results)
           | Failure err \<Rightarrow> map_of results (Name (es ! i)) = None
                         \<and> ScrapeSuccess reg' (Name (es ! i)) = Some 0
           | Panic p \<Rightarrow> False"
  proof (intro allI impI)
    fix i assume i: "i < length es"
    from CollectAll_loop_each [OF loop names i] mem
    show "case collect i (es ! i) of
             Success r \<Rightarrow> map_of results (Name (es ! i)) = Some r
                         \<and> ScrapeSuccess reg' (Name (es ! i)) = Some 1
                         \<and> (Name (es ! i), r) \<in> set (\<rho>w results)
           | Failure err \<Rightarrow> map_of results (Name (es ! i)) = None
                         \<and> ScrapeSuccess reg' (Name (es ! i)) = Some 0
           | Panic p \<Rightarrow> False"
      by (auto split: outcome.splits)
  qed
  have "handleMetrics (CollectAll collect c) (WriteMetrics Encode \<rho>w) ownMetrics reg w0
          = (Inr (Write (ownMetrics reg') w1), reg')"
    using all wm by (simp add: handleMetrics_def)
  moreover have "sent_status (Write (ownMetrics reg') w1) = 200"
    using st by (simp add: sent_status_Write)
  moreover have "written (Write (ownMetrics reg') w1)
                 = concat (map text_of (\<rho>w results)) @ ownMetrics reg'"
    using wr by (simp add: written_Write)
  ultimately show ?thesis using all each unfolding w0_def by blast
qed

lemma two_endpoints_enabled:
  "GetEnabledEndpoints two_endpoints
   = [\<lparr>Name = ''jobs'', Path = ''/jobs'', Enabled = True\<rparr>,
      \<lparr>Name = ''nodes'', Path = ''/nodes'', Enabled = True\<rparr>]"
  by (simp add: GetEnabledEndpoints_def two_endpoints_def disabled_config_def)

lemma two_endpoints_collect:
  "collectEndpoint two_endpoints one_family_parser \<rho>f \<rho>l (\<lambda>url. Response 503 (Some url)) e
     = Failure (UnexpectedStatusCode 503)"
  "\<rho>f [(''http://slurm'' @ Path e, named_family (''http://slurm'' @ Path e))]
     = [(''http://slurm'' @ Path e, named_family (''http://slurm'' @ Path e))] \<Longrightarrow>
   collectEndpoint two_endpoints one_family_parser \<rho>f \<rho>l (\<lambda>url. Response 200 (Some url)) e
     = Success ([named_family (''http://slurm'' @ Path e)], bare_heap)"
  by (simp_all add: collectEndpoint_def parseMetrics_def one_family_parser_def two_endpoints_def
        disabled_config_def addCustomLabels_def)

theorem failed_endpoints_are_isolated_witness:
  "\<exists>results reg' w'.
     CollectAll (\<lambda>i. collectEndpoint two_endpoints one_family_parser id id (failing_first_client i))
        two_endpoints empty_registry = (Inr (results, None), reg')
     \<and> map_of results ''jobs'' = None
     \<and> ScrapeSuccess reg' ''jobs'' = Some 0
     \<and> map_of results ''nodes'' = Some ([named_family ''http://slurm/nodes''], bare_heap)
     \<and> ScrapeSuccess reg' ''nodes'' = Some 1
     \<and> handleMetrics
          (CollectAll (\<lambda>i. collectEndpoint two_endpoints one_family_parser id id (failing_first_client i))
             two_endpoints)
          (WriteMetrics name_encoder rev) (\<lambda>reg. ''own'') empty_registry
          \<lparr>status_code = None, written = []\<rparr> = (Inr w', reg')
     \<and> sent_status w' = 200"
proof -
  have names: "distinct (map Name (GetEnabledEndpoints two_endpoints))"
    by (simp add: two_endpoints_enabled)
  have order: "\<forall>m :: (string, MetricFamily list \<times> unit heap) gomap. range_order m (rev m)"
    by (simp add: range_order_def)
  have accepts: "\<forall>h f. \<not> isl (name_encoder h f)"
    by (simp add: name_encoder_def)
  from failed_endpoints_are_isolated
    [where c = two_endpoints and P = one_family_parser and \<rho>f = "\<lambda>i. id" and \<rho>l = "\<lambda>i. id"
       and client = failing_first_client and \<rho>w = rev and Encode = name_encoder
       and reg = empty_registry and ownMetrics = "\<lambda>reg. ''own''",
     OF names order accepts]
  obtain results reg' w' where
    all: "CollectAll (\<lambda>i. collectEndpoint two_endpoints one_family_parser id id (failing_first_client i))
        two_endpoints empty_registry = (Inr (results, None), reg')"
    and each: "\<forall>i<length (GetEnabledEndpoints two_endpoints).
           case collectEndpoint two_endpoints one_family_parser id id (failing_first_client i)
                  (GetEnabledEndpoints two_endpoints ! i) of
             Success r \<Rightarrow> map_of results (Name (GetEnabledEndpoints two_endpoints ! i)) = Some r
                         \<and> ScrapeSuccess reg' (Name (GetEnabledEndpoints two_endpoints ! i)) = Some 1
                         \<and> (Name (GetEnabledEndpoints two_endpoints ! i), r) \<in> set (rev results)
           | Failure err \<Rightarrow> map_of results (Name (GetEnabledEndpoints two_endpoints ! i)) = None
                         \<and> ScrapeSuccess reg' (Name (GetEnabledEndpoints two_endpoints ! i)) = Some 0
           | Panic p \<Rightarrow> False"
    and handler: "handleMetrics
          (CollectAll (\<lambda>i. collectEndpoint two_endpoints one_family_parser id id (failing_first_client i))
             two_endpoints)
          (WriteMetrics name_encoder rev) (\<lambda>reg. ''own'') empty_registry
          \<lparr>status_code = None, written = []\<rparr> = (Inr w', reg')"
    and status: "sent_status w' = 200"
    by (auto simp: id_def)
  have c0: "failing_first_client 0 = (\<lambda>url. Response 503 (Some url))"
    and c1: "failing_first_client (Suc 0) = (\<lambda>url. Response 200 (Some url))"
    by (simp_all add: failing_first_client_def fun_eq_iff)
  from each [rule_format, of 0] have
    "map_of results ''jobs'' = None \<and> ScrapeSuccess reg' ''jobs'' = Some 0"
    by (simp add: two_endpoints_enabled c0 two_endpoints_collect)
  moreover from each [rule_format, of "Suc 0"] have
    "map_of results ''nodes'' = Some ([named_family ''http://slurm/nodes''], bare_heap)
     \<and> ScrapeSuccess reg' ''nodes'' = Some 1"
    by (simp add: two_endpoints_enabled c1 two_endpoints_collect)
  ultimately show ?thesis using all handler status by blast
qed

text \<open>
  C3 (as amended). Let the enabled endpoints have distinct names and the encoder accept
  every family. The map that \<^verbatim>\<open>CollectAll\<close> returns holds one entry for every endpoint that
  was collected, and \<^verbatim>\<open>WriteMetrics\<close> writes the families entry by entry in the order \<open>\<rho>w\<close>
  in which the runtime ranges over that map, which need not be the order of declaration;
  every family of every entry is written, and none is merged with another or left out for
  having the name of another. Within an endpoint the families come in the order of the
  slice that \<^verbatim>\<open>parseMetrics\<close> builds, which is the order \<open>\<rho>\<close> in which the runtime ranges
  over the parser's map of families, not the order of their appearance in the body.
\<close>

theorem written_order_is_the_runtimes:
  fixes c :: Config and P :: "'a text_parser" and Encode :: "'a encoder"
    and \<rho>f :: "nat \<Rightarrow> (string, MetricFamily) ranging" and \<rho>l :: "nat \<Rightarrow> (string, string) ranging"
    and client :: "nat \<Rightarrow> string \<Rightarrow> string option exchange"
  defines "es \<equiv> GetEnabledEndpoints c"
    and "collect \<equiv> (\<lambda>i. collectEndpoint c P (\<rho>f i) (\<rho>l i) (client i))"
    and "text_of \<equiv> (\<lambda>(name, fs, h). concat (map (\<lambda>f. projr (Encode h f)) fs))"
  assumes names: "distinct (map Name es)"
    and accepts: "\<forall>h f. \<not> isl (Encode h f)"
    and parsed: "P text = Inr (metricFamilies, h)"
  shows "\<exists>reg' w'.
     CollectAll collect c reg = (Inr (collected collect 0 es, None), reg')
     \<and> WriteMetrics Encode \<rho>w (collected collect 0 es) w = (w', None)
     \<and> written w' = written w @ concat (map text_of (\<rho>w (collected collect 0 es)))
     \<and> parseMetrics P \<rho> (Some text) = Inr (map snd (\<rho> metricFamilies), h)"
proof -
  have np: "\<forall>i<length (GetEnabledEndpoints c). \<forall>p. collect i (GetEnabledEndpoints c ! i) \<noteq> Panic p"
    by (simp add: collect_def collectEndpoint_no_panic)
  from CollectAll_returns [where collect = collect and c = c and reg = reg] np
  obtain results reg' where
    all: "CollectAll collect c reg = (Inr (results, None), reg')"
    and loop: "CollectAll_loop collect 0 es [] reg = (Inr results, reg')"
    by (auto simp: es_def)
  from CollectAll_loop_results [OF loop names] have res: "results = collected collect 0 es"
    by simp
  from accepts have "\<forall>(name, fs, h)\<in>set (\<rho>w results). \<forall>f\<in>set fs. \<not> isl (Encode h f)"
    by auto
  from write_families_written [where Encode = Encode and it = "\<rho>w results" and w = w] this
  have "WriteMetrics Encode \<rho>w results w = (fst (WriteMetrics Encode \<rho>w results w), None)"
    and "written (fst (WriteMetrics Encode \<rho>w results w))
         = written w @ concat (map text_of (\<rho>w results))"
    by (simp_all add: WriteMetrics_def text_of_def)
  moreover from parsed have "parseMetrics P \<rho> (Some text) = Inr (map snd (\<rho> metricFamilies), h)"
    by (simp add: parseMetrics_def)
  ultimately show ?thesis using all res by blast
qed

lemma two_endpoints_collected:
  "collected (\<lambda>i. collectEndpoint two_endpoints one_family_parser id id (url_client i)) 0
     (GetEnabledEndpoints two_endpoints) = both_collected"
  unfolding two_endpoints_enabled
  by (simp add: collectEndpoint_def parseMetrics_def one_family_parser_def both_collected_def
        two_endpoints_def disabled_config_def addCustomLabels_def url_client_def)

theorem written_order_is_the_runtimes_witness:
  "\<exists>reg' w'.
     CollectAll (\<lambda>i. collectEndpoint two_endpoints one_family_parser id id (url_client i))
       two_endpoints empty_registry = (Inr (both_collected, None), reg')
     \<and> WriteMetrics name_encoder id both_collected fresh_response = (w', None)
     \<and> written w' = ''http://slurm/jobs'' @ nl @ ''http://slurm/nodes'' @ nl
     \<and> parseMetrics one_family_parser rev (Some ''x'') = Inr ([named_family ''x''], bare_heap)"
proof -
  have names: "distinct (map Name (GetEnabledEndpoints two_endpoints))"
    by (simp add: two_endpoints_enabled)
  have accepts: "\<forall>h f. \<not> isl (name_encoder h f)"
    by (simp add: name_encoder_def)
  have parsed: "one_family_parser ''x'' = Inr ([(''x'', named_family ''x'')], bare_heap)"
    by (simp add: one_family_parser_def)
  from written_order_is_the_runtimes
    [where c = two_endpoints and P = one_family_parser and \<rho>f = "\<lambda>i. id" and \<rho>l = "\<lambda>i. id"
       and client = url_client and \<rho>w = id and Encode = name_encoder
       and reg = empty_registry and w = fresh_response and \<rho> = rev,
     OF names accepts parsed]
  show ?thesis
    by (auto simp: id_def [symmetric] two_endpoints_collected both_collected_def
          named_family_def name_encoder_def fresh_response_def nl_def)
qed

text \<open>
  The claim as stated fails: \<^verbatim>\<open>jobs\<close> is declared before \<^verbatim>\<open>nodes\<close> and both are collected;
  the runtime may range over the two entries of the map in the reverse order, and then the
  family of \<^verbatim>\<open>nodes\<close> is written before the family of \<^verbatim>\<open>jobs\<close>.
\<close>

theorem written_order_against_declaration:
  "map Name (GetEnabledEndpoints two_endpoints) = [''jobs'', ''nodes'']
   \<and> collected (\<lambda>i. collectEndpoint two_endpoints one_family_parser id id (url_client i)) 0
        (GetEnabledEndpoints two_endpoints) = both_collected
   \<and> range_order both_collected (rev both_collected)
   \<and> written (fst (WriteMetrics name_encoder rev both_collected fresh_response))
      = ''http://slurm/nodes'' @ nl @ ''http://slurm/jobs'' @ nl"
  using two_endpoints_collected
  by (simp add: two_endpoints_enabled range_order_def WriteMetrics_def both_collected_def
        named_family_def name_encoder_def Write_def WriteHeader_def fresh_response_def nl_def)

end
